theory Spec2Isabelle
  imports Complex_Main
begin

section \<open>Python values used by the vocabulary deck generator\<close>

text \<open>
  A Python \<open>str\<close> is a sequence of Unicode code points and \<open>len\<close> counts code points,
  so a string is modelled as the list of its code points. The Chinese literals of the
  source are written out by code point.
\<close>

type_synonym pystr = "nat list"

text \<open>
  A cell value as the spreadsheet library hands it over: \<open>None\<close>, a string, an integer,
  a boolean, a finite float, given by its exact value and the text that \<open>str()\<close> gives for
  it, or a value of another type (date, time, ...), given by an identity and its
  \<open>str()\<close> text: two such values are equal in Python exactly when their identities are.
\<close>

datatype cell =
    CNone
  | CStr pystr
  | CInt int
  | CBool bool
  | CFloat rat pystr
  | COther nat pystr

datatype exn =
    SystemExit int
  | Exception pystr
  | KeyError cell
  | ValueError

section \<open>Built-ins: \<open>range\<close>, slicing, \<open>str.join\<close>\<close>

text \<open>
  \<open>range(start, stop, step)\<close>: a zero step raises \<open>ValueError\<close>; otherwise the
  length is computed as CPython does and item \<open>k\<close> is \<open>start + k * step\<close>.
\<close>

definition range_len :: "int \<Rightarrow> int \<Rightarrow> int \<Rightarrow> nat" where
  "range_len start stop step =
     (if 0 < step then (if start < stop then nat ((stop - start - 1) div step + 1) else 0)
      else (if stop < start then nat ((start - stop - 1) div (- step) + 1) else 0))"

definition py_range :: "int \<Rightarrow> int \<Rightarrow> int \<Rightarrow> exn + int list" where
  "py_range start stop step =
     (if step = 0 then Inl ValueError
      else Inr (map (\<lambda>k. start + int k * step) [0..<range_len start stop step]))"

text \<open>
  \<open>text[i:j]\<close>: a negative bound counts from the end, both bounds are clamped to
  \<open>0 .. len(text)\<close>, and the slice is empty when the bounds cross.
\<close>

definition slice_bound :: "nat \<Rightarrow> int \<Rightarrow> nat" where
  "slice_bound n i = (if i < 0 then nat (max (i + int n) 0) else min (nat i) n)"

definition py_slice :: "'a list \<Rightarrow> int \<Rightarrow> int \<Rightarrow> 'a list" where
  "py_slice text i j =
     (let lo = slice_bound (length text) i; hi = slice_bound (length text) j
      in take (hi - lo) (drop lo text))"

fun str_join :: "pystr \<Rightarrow> pystr list \<Rightarrow> pystr" where
  "str_join sep [] = []"
| "str_join sep [x] = x"
| "str_join sep (x # y # ys) = x @ sep @ str_join sep (y # ys)"

section \<open>The text wrapper\<close>

definition TEXT_WRAP_THRESHOLD :: int where
  "TEXT_WRAP_THRESHOLD = 40"

text \<open>The separator literal of \<open>process_text\<close>: a newline and 18 spaces.\<close>

definition WRAP_SEP :: pystr where
  "WRAP_SEP = [0xA, 0x20, 0x20, 0x20, 0x20, 0x20, 0x20, 0x20, 0x20, 0x20,
               0x20, 0x20, 0x20, 0x20, 0x20, 0x20, 0x20, 0x20, 0x20]"

definition process_text :: "pystr \<Rightarrow> int \<Rightarrow> exn + pystr" where
  "process_text text threshold =
     (if int (length text) \<le> threshold then Inr text
      else case py_range 0 (int (length text)) threshold of
             Inl e \<Rightarrow> Inl e
           | Inr idx \<Rightarrow> Inr (str_join WRAP_SEP (map (\<lambda>i. py_slice text i (i + threshold)) idx)))"

section \<open>The spreadsheet reader\<close>

text \<open>\<open>str(value)\<close> for a cell value; \<open>str\<close> of an integer is its decimal numeral.\<close>

function str_nat :: "nat \<Rightarrow> pystr" where
  "str_nat n = (if n < 10 then [0x30 + n] else str_nat (n div 10) @ [0x30 + n mod 10])"
  by pat_completeness auto
termination
  by (relation "measure id") auto

declare str_nat.simps [simp del]

definition str_int :: "int \<Rightarrow> pystr" where
  "str_int i = (if i < 0 then 0x2D # str_nat (nat (- i)) else str_nat (nat i))"

fun py_str :: "cell \<Rightarrow> pystr" where
  "py_str CNone = [0x4E, 0x6F, 0x6E, 0x65]"
| "py_str (CStr s) = s"
| "py_str (CInt i) = str_int i"
| "py_str (CBool b) = (if b then [0x54, 0x72, 0x75, 0x65] else [0x46, 0x61, 0x6C, 0x73, 0x65])"
| "py_str (CFloat q s) = s"
| "py_str (COther n s) = s"

text \<open>
  The keys of \<open>REQUIRED_COLUMNS\<close>, in the order of the dictionary literal: word,
  phonetic, morphology, example, example translation, word definition.
\<close>

definition COL_WORD :: pystr where
  "COL_WORD = [0x82F1, 0x6587, 0x5355, 0x8BCD]"

definition COL_PHONETIC :: pystr where
  "COL_PHONETIC = [0x82F1, 0x6587, 0x97F3, 0x6807]"

definition COL_MORPHOLOGY :: pystr where
  "COL_MORPHOLOGY = [0x8BCD, 0x6839, 0x8BCD, 0x7F00]"

definition COL_EXAMPLE :: pystr where
  "COL_EXAMPLE = [0x4F8B, 0x53E5]"

definition COL_EXAMPLE_DEF :: pystr where
  "COL_EXAMPLE_DEF = [0x4F8B, 0x53E5, 0x91CA, 0x4E49]"

definition COL_WORD_DEF :: pystr where
  "COL_WORD_DEF = [0x5355, 0x8BCD, 0x91CA, 0x4E49]"

definition REQUIRED_COLUMNS :: "pystr list" where
  "REQUIRED_COLUMNS =
     [COL_WORD, COL_PHONETIC, COL_MORPHOLOGY, COL_EXAMPLE, COL_EXAMPLE_DEF, COL_WORD_DEF]"

text \<open>
  A worksheet as the spreadsheet library presents it: cells addressed by row and column
  from 1, and the extent of the sheet. Both \<open>ws[1]\<close> and every row of
  \<open>ws.iter_rows(min_row=2, values_only=True)\<close> span the columns \<open>1 .. max_column\<close>;
  the rows run to \<open>max_row\<close>.
\<close>

record worksheet =
  max_row :: nat
  max_column :: nat
  cell_value :: "nat \<Rightarrow> nat \<Rightarrow> cell"

definition ws_row :: "worksheet \<Rightarrow> nat \<Rightarrow> cell list" where
  "ws_row ws r = map (\<lambda>c. cell_value ws r c) [1..<Suc (max_column ws)]"

definition iter_rows :: "worksheet \<Rightarrow> nat \<Rightarrow> cell list list" where
  "iter_rows ws min_row = map (ws_row ws) [min_row..<Suc (max_row ws)]"

text \<open>
  A workbook gives its active sheet and, by name, a sheet or the text of the exception that
  \<open>wb[sheet_name]\<close> raises. Opening a file is a parameter of the model: it yields a
  workbook or the text of the exception raised.
\<close>

record workbook =
  active :: worksheet
  sheet :: "pystr \<Rightarrow> pystr + worksheet"

type_synonym opener = "pystr \<Rightarrow> pystr + workbook"

type_synonym row_dict = "cell \<rightharpoonup> pystr"

text \<open>
  The key under which a dictionary files a cell value. Values that Python compares equal,
  and hashes alike, are one key: \<open>True\<close> and \<open>False\<close> are the integers 1 and 0, a float
  is the integer of the same value when there is one, two floats are one key when their
  values are equal, and a value of another type is one key with the values of its identity.
  \<open>None\<close> and strings are equal only to themselves.
\<close>

fun dict_key :: "cell \<Rightarrow> cell" where
  "dict_key CNone = CNone"
| "dict_key (CStr s) = CStr s"
| "dict_key (CInt i) = CInt i"
| "dict_key (CBool b) = CInt (if b then 1 else 0)"
| "dict_key (CFloat q s) = (if of_int \<lfloor>q\<rfloor> = q then CInt \<lfloor>q\<rfloor> else CFloat q [])"
| "dict_key (COther n s) = COther n []"

text \<open>The inner loop over \<open>enumerate(row)\<close>, and the outer loop appending one record per row.\<close>

fun fill_row :: "cell list \<Rightarrow> (nat \<times> cell) list \<Rightarrow> row_dict \<Rightarrow> row_dict" where
  "fill_row headers [] row_dict = row_dict"
| "fill_row headers ((i, v) # rest) row_dict =
     fill_row headers rest
       (if i < length headers
        then row_dict(dict_key (headers ! i) \<mapsto> (if v \<noteq> CNone then py_str v else []))
        else row_dict)"

definition read_rows :: "cell list \<Rightarrow> cell list list \<Rightarrow> row_dict list" where
  "read_rows headers rows = map (\<lambda>row. fill_row headers (enumerate 0 row) Map.empty) rows"

definition missing_columns :: "cell list \<Rightarrow> pystr list" where
  "missing_columns headers = filter (\<lambda>col. CStr col \<notin> set headers) REQUIRED_COLUMNS"

section \<open>The slide layout\<close>

text \<open>
  Lengths are integers in English Metric Units. \<open>Inches(x)\<close> is \<open>int(x * 914400)\<close>
  and \<open>Pt(x)\<close> is \<open>int(x * 12700)\<close>, truncating towards zero. The source passes the
  float literals 1.4, 4.4 and 1.5 to \<open>Inches\<close>; their double-precision products truncate
  to the exact values 1280160, 4023360 and 1371600, which the rational arithmetic used
  here gives as well.
\<close>

definition py_int :: "rat \<Rightarrow> int" where
  "py_int x = (if 0 \<le> x then \<lfloor>x\<rfloor> else \<lceil>x\<rceil>)"

definition Inches :: "rat \<Rightarrow> int" where
  "Inches inches = py_int (inches * 914400)"

definition Pt :: "rat \<Rightarrow> int" where
  "Pt points = py_int (points * 12700)"

definition SLIDE_WIDTH :: int where
  "SLIDE_WIDTH = Inches 16"

definition SLIDE_HEIGHT :: int where
  "SLIDE_HEIGHT = Inches 9"

definition WORD_FONT_SIZE :: int where
  "WORD_FONT_SIZE = Pt 72"

definition PHONETIC_FONT_SIZE :: int where
  "PHONETIC_FONT_SIZE = Pt 32"

definition CONTENT_FONT_SIZE :: int where
  "CONTENT_FONT_SIZE = Pt 32"

datatype PP_PARAGRAPH_ALIGNMENT = LEFT | CENTER | RIGHT | JUSTIFY

datatype MSO_AUTO_SIZE = NONE | SHAPE_TO_FIT_TEXT | TEXT_TO_FIT_SHAPE

text \<open>
  A paragraph with the properties the program sets (\<open>None\<close>: not set). A text box with
  its rectangle, the properties the program sets on its text frame, and its paragraphs:
  the text frame of a new text box holds one empty paragraph, and \<open>add_paragraph\<close>
  appends another.
\<close>

record text_paragraph =
  p_alignment :: "PP_PARAGRAPH_ALIGNMENT option"
  p_font_size :: "int option"
  p_text :: pystr

record textbox =
  sh_left :: int
  sh_top :: int
  sh_width :: int
  sh_height :: int
  auto_size :: "MSO_AUTO_SIZE option"
  word_wrap :: "bool option"
  paragraphs :: "text_paragraph list"

record slide =
  layout :: nat
  shapes :: "textbox list"

record presentation =
  slide_width :: int
  slide_height :: int
  slides :: "slide list"

definition new_paragraph :: text_paragraph where
  "new_paragraph = \<lparr>p_alignment = None, p_font_size = None, p_text = []\<rparr>"

definition add_textbox :: "int \<Rightarrow> int \<Rightarrow> int \<Rightarrow> int \<Rightarrow> textbox" where
  "add_textbox left0 top0 width height =
     \<lparr>sh_left = left0, sh_top = top0, sh_width = width, sh_height = height,
      auto_size = None, word_wrap = None, paragraphs = [new_paragraph]\<rparr>"

text \<open>The labels put in front of the field texts.\<close>

definition LABEL_MORPHOLOGY :: pystr where
  "LABEL_MORPHOLOGY = [0x8BCD, 0x6839, 0x8BCD, 0x7F00, 0xFF1A]"

definition LABEL_EXAMPLE :: pystr where
  "LABEL_EXAMPLE = [0x4F8B, 0x53E5, 0xFF1A]"

definition LABEL_EXAMPLE_DEF :: pystr where
  "LABEL_EXAMPLE_DEF = [0x4F8B, 0x53E5, 0x91CA, 0x4E49, 0xFF1A]"

definition LABEL_WORD_DEF :: pystr where
  "LABEL_WORD_DEF = [0x5355, 0x8BCD, 0x91CA, 0x4E49, 0xFF1A]"

text \<open>
  Each \<open>add_..._textbox\<close> appends one text box to the slide's shapes, with one added
  paragraph carrying alignment, font size and text.
\<close>

definition add_word_textbox :: "slide \<Rightarrow> int \<Rightarrow> int \<Rightarrow> int \<Rightarrow> int \<Rightarrow> pystr \<Rightarrow> slide" where
  "add_word_textbox sl left0 top0 width height word =
     (let word_textbox = add_textbox left0 top0 width height;
          word_paragraph = \<lparr>p_alignment = Some CENTER, p_font_size = Some WORD_FONT_SIZE,
                            p_text = word\<rparr>
      in sl\<lparr>shapes := shapes sl @
            [word_textbox\<lparr>paragraphs := paragraphs word_textbox @ [word_paragraph],
                          auto_size := Some TEXT_TO_FIT_SHAPE\<rparr>]\<rparr>)"

definition add_phonetic_textbox :: "slide \<Rightarrow> int \<Rightarrow> int \<Rightarrow> int \<Rightarrow> int \<Rightarrow> pystr \<Rightarrow> slide" where
  "add_phonetic_textbox sl left0 top0 width height phonetic =
     (let phonetic_textbox = add_textbox left0 top0 width height;
          phonetic_paragraph = \<lparr>p_alignment = Some CENTER,
                                p_font_size = Some PHONETIC_FONT_SIZE, p_text = phonetic\<rparr>
      in sl\<lparr>shapes := shapes sl @
            [phonetic_textbox\<lparr>paragraphs := paragraphs phonetic_textbox @ [phonetic_paragraph],
                              auto_size := Some TEXT_TO_FIT_SHAPE\<rparr>]\<rparr>)"

definition add_morphology_textbox ::
  "slide \<Rightarrow> int \<Rightarrow> int \<Rightarrow> int \<Rightarrow> int \<Rightarrow> pystr \<Rightarrow> exn + slide" where
  "add_morphology_textbox sl left0 top0 width height morphology =
     (let morphology_textbox =
            (add_textbox left0 top0 width height)
              \<lparr>auto_size := Some TEXT_TO_FIT_SHAPE, word_wrap := Some True\<rparr>
      in case process_text morphology TEXT_WRAP_THRESHOLD of
           Inl e \<Rightarrow> Inl e
         | Inr processed_morphology \<Rightarrow>
             Inr (sl\<lparr>shapes := shapes sl @
                   [morphology_textbox\<lparr>paragraphs := paragraphs morphology_textbox @
                      [\<lparr>p_alignment = Some LEFT, p_font_size = Some CONTENT_FONT_SIZE,
                        p_text = LABEL_MORPHOLOGY @ processed_morphology\<rparr>]\<rparr>]\<rparr>))"

definition add_example_textbox ::
  "slide \<Rightarrow> int \<Rightarrow> int \<Rightarrow> int \<Rightarrow> int \<Rightarrow> pystr \<Rightarrow> pystr \<Rightarrow> exn + slide" where
  "add_example_textbox sl left0 top0 width height example example_def =
     (let example_textbox =
            (add_textbox left0 top0 width height)
              \<lparr>auto_size := Some TEXT_TO_FIT_SHAPE, word_wrap := Some True\<rparr>
      in case process_text example TEXT_WRAP_THRESHOLD of
           Inl e \<Rightarrow> Inl e
         | Inr processed_example \<Rightarrow>
             (case process_text example_def TEXT_WRAP_THRESHOLD of
                Inl e \<Rightarrow> Inl e
              | Inr processed_example_def \<Rightarrow>
                  Inr (sl\<lparr>shapes := shapes sl @
                        [example_textbox\<lparr>paragraphs := paragraphs example_textbox @
                           [\<lparr>p_alignment = Some LEFT, p_font_size = Some CONTENT_FONT_SIZE,
                             p_text = LABEL_EXAMPLE @ processed_example @ [0xA]
                                      @ LABEL_EXAMPLE_DEF @ processed_example_def\<rparr>]\<rparr>]\<rparr>)))"

definition add_word_def_textbox ::
  "slide \<Rightarrow> int \<Rightarrow> int \<Rightarrow> int \<Rightarrow> int \<Rightarrow> pystr \<Rightarrow> exn + slide" where
  "add_word_def_textbox sl left0 top0 width height word_def =
     (let word_def_textbox =
            (add_textbox left0 top0 width height)\<lparr>auto_size := Some SHAPE_TO_FIT_TEXT\<rparr>
      in case process_text word_def TEXT_WRAP_THRESHOLD of
           Inl e \<Rightarrow> Inl e
         | Inr processed_word_def \<Rightarrow>
             Inr (sl\<lparr>shapes := shapes sl @
                   [word_def_textbox\<lparr>paragraphs := paragraphs word_def_textbox @
                      [\<lparr>p_alignment = Some LEFT, p_font_size = Some CONTENT_FONT_SIZE,
                        p_text = LABEL_WORD_DEF @ processed_word_def\<rparr>]\<rparr>]\<rparr>))"

text \<open>\<open>row[key]\<close> raises \<open>KeyError\<close> for a key the record does not have.\<close>

definition row_get :: "row_dict \<Rightarrow> pystr \<Rightarrow> exn + pystr" where
  "row_get row key = (case row (CStr key) of None \<Rightarrow> Inl (KeyError (CStr key)) | Some v \<Rightarrow> Inr v)"

definition bind_exn :: "exn + 'a \<Rightarrow> ('a \<Rightarrow> exn + 'b) \<Rightarrow> exn + 'b" where
  "bind_exn r f = (case r of Inl e \<Rightarrow> Inl e | Inr v \<Rightarrow> f v)"

text \<open>
  \<open>generate_slide\<close> builds the slide on the blank layout (index 6, no placeholder
  shapes) and appends it to the deck. An exception on the way leaves the function, and
  the deck it was working on is not used again by any caller.
\<close>

definition slide_for :: "row_dict \<Rightarrow> exn + slide" where
  "slide_for row =
     (let sl = \<lparr>layout = 6, shapes = []\<rparr>;
          word_left = Inches 4; word_top = Inches 1;
          word_width = Inches 8; word_height = Inches 2
      in bind_exn (row_get row COL_WORD) (\<lambda>word.
         let sl = add_word_textbox sl word_left word_top word_width word_height word;
             phonetic_left = word_left + Inches 3;
             phonetic_top = word_top + Inches (14 / 10);
             phonetic_width = Inches 2; phonetic_height = Inches 1
         in bind_exn (row_get row COL_PHONETIC) (\<lambda>phonetic.
         let sl = add_phonetic_textbox sl phonetic_left phonetic_top
                    phonetic_width phonetic_height phonetic;
             morphology_left = Inches 2; morphology_top = word_top + Inches 3;
             morphology_width = Inches 12; morphology_height = Inches 2
         in bind_exn (row_get row COL_MORPHOLOGY) (\<lambda>morphology.
            bind_exn (add_morphology_textbox sl morphology_left morphology_top
                        morphology_width morphology_height morphology) (\<lambda>sl.
         let example_left = Inches 2; example_top = word_top + Inches (44 / 10);
             example_width = Inches 12; example_height = Inches 3
         in bind_exn (row_get row COL_EXAMPLE) (\<lambda>example.
            bind_exn (row_get row COL_EXAMPLE_DEF) (\<lambda>example_def.
            bind_exn (add_example_textbox sl example_left example_top
                        example_width example_height example example_def) (\<lambda>sl.
            bind_exn (row_get row COL_WORD_DEF) (\<lambda>word_def.
              if word_def \<noteq> [] then
                (let word_def_left = Inches 2; word_def_top = word_top + Inches 2;
                     word_def_width = Inches 8; word_def_height = Inches (15 / 10)
                 in bind_exn (row_get row COL_WORD_DEF) (\<lambda>word_def.
                      add_word_def_textbox sl word_def_left word_def_top
                        word_def_width word_def_height word_def))
              else Inr sl)))))))))"

definition generate_slide :: "presentation \<Rightarrow> row_dict \<Rightarrow> exn + presentation" where
  "generate_slide ppt row =
     bind_exn (slide_for row) (\<lambda>sl. Inr (ppt\<lparr>slides := slides ppt @ [sl]\<rparr>))"

section \<open>The deck builder\<close>

text \<open>
  What the program leaves behind: the strings it printed, one per \<open>print\<close> call, and
  the calls it made to \<open>ppt.save\<close> (path and deck), successful or not. Whether a call to
  \<open>ppt.save\<close> raises is a parameter of the model: for a path and a deck it gives
  \<open>None\<close> when the call returns and the text of the exception otherwise.
\<close>

record world =
  stdout :: "pystr list"
  save_calls :: "(pystr \<times> presentation) list"

type_synonym saver = "pystr \<Rightarrow> presentation \<Rightarrow> pystr option"

definition print :: "pystr \<Rightarrow> world \<Rightarrow> world" where
  "print line w = w\<lparr>stdout := stdout w @ [line]\<rparr>"

text \<open>The message literals, in the order in which the source has them.\<close>

definition MSG_READ_ERROR :: pystr where
  "MSG_READ_ERROR = [0x8BFB, 0x53D6, 0x45, 0x78, 0x63, 0x65, 0x6C, 0x6587, 0x4EF6, 0x65F6,
                     0x53D1, 0x751F, 0x9519, 0x8BEF, 0xFF1A]"

definition MSG_MISSING :: pystr where
  "MSG_MISSING = [0x45, 0x78, 0x63, 0x65, 0x6C, 0x6587, 0x4EF6, 0x7F3A, 0x5C11, 0x5FC5,
                  0x8981, 0x7684, 0x5217, 0xFF1A]"

definition MSG_START :: "nat \<Rightarrow> pystr" where
  "MSG_START word_count =
     [0x5F00, 0x59CB, 0x751F, 0x6210, 0x50, 0x50, 0x54, 0xFF0C, 0x5171, 0x20]
     @ str_nat word_count @ [0x20, 0x4E2A, 0x5355, 0x8BCD, 0x2E, 0x2E, 0x2E]"

definition MSG_PROGRESS :: "nat \<Rightarrow> nat \<Rightarrow> pystr" where
  "MSG_PROGRESS n_done word_count =
     [0x5904, 0x7406, 0x8FDB, 0x5EA6, 0xFF1A] @ str_nat n_done @ [0x2F] @ str_nat word_count"

definition MSG_SUCCESS :: "pystr \<Rightarrow> pystr" where
  "MSG_SUCCESS output_file =
     [0xA, 0x6210, 0x529F, 0x751F, 0x6210, 0x50, 0x50, 0x54, 0x6587, 0x4EF6, 0xFF1A]
     @ output_file"

definition MSG_COUNT :: "nat \<Rightarrow> pystr" where
  "MSG_COUNT word_count =
     [0x5171, 0x5904, 0x7406, 0x20] @ str_nat word_count @ [0x20, 0x4E2A, 0x5355, 0x8BCD]"

definition MSG_SAVE_ERROR :: pystr where
  "MSG_SAVE_ERROR = [0x4FDD, 0x5B58, 0x6F14, 0x793A, 0x6587, 0x7A3F, 0x65F6, 0x53D1, 0x751F,
                     0x9519, 0x8BEF, 0xFF1A]"

definition EXC_LOAD_SHEET :: pystr where
  "EXC_LOAD_SHEET = [0x52A0, 0x8F7D, 0x8868, 0x683C, 0x5931, 0x8D25, 0x3A, 0x20]"

definition EXC_MISSING :: pystr where
  "EXC_MISSING = [0x8868, 0x683C, 0x7F3A, 0x5C11, 0x5FC5, 0x8981, 0x7684, 0x5217, 0x3A, 0x20]"

definition EXC_SAVE :: pystr where
  "EXC_SAVE = [0x4FDD, 0x5B58, 0x6F14, 0x793A, 0x6587, 0x7A3F, 0x65F6, 0x53D1, 0x751F,
               0x9519, 0x8BEF, 0x3A, 0x20]"

definition COMMA_SPACE :: pystr where
  "COMMA_SPACE = [0x2C, 0x20]"

definition DEFAULT_INPUT :: pystr where
  "DEFAULT_INPUT = [0x77, 0x6F, 0x72, 0x64, 0x73, 0x2E, 0x78, 0x6C, 0x73, 0x78]"

definition DEFAULT_OUTPUT :: pystr where
  "DEFAULT_OUTPUT = [0x77, 0x6F, 0x72, 0x64, 0x73, 0x2E, 0x70, 0x70, 0x74, 0x78]"

text \<open>
  \<open>load_data\<close> reads the active sheet; a failure is printed and ends the process with
  \<open>sys.exit(1)\<close>. \<open>load_data_from_sheet\<close> reads the named sheet and raises
  \<open>Exception\<close> with a message instead; it prints nothing.
\<close>

definition load_data :: "opener \<Rightarrow> pystr \<Rightarrow> world \<Rightarrow> (exn + row_dict list) \<times> world" where
  "load_data load_workbook input_file w =
     (case load_workbook input_file of
        Inl e \<Rightarrow> (Inl (SystemExit 1), print (MSG_READ_ERROR @ e) w)
      | Inr wb \<Rightarrow>
          (let ws = active wb;
               headers = ws_row ws 1
           in if missing_columns headers \<noteq> []
              then (Inl (SystemExit 1),
                    print (MSG_MISSING @ str_join COMMA_SPACE (missing_columns headers)) w)
              else (Inr (read_rows headers (iter_rows ws 2)), w)))"

definition load_data_from_sheet :: "opener \<Rightarrow> pystr \<Rightarrow> pystr \<Rightarrow> exn + row_dict list" where
  "load_data_from_sheet load_workbook input_file sheet_name =
     (case load_workbook input_file of
        Inl e \<Rightarrow> Inl (Exception (EXC_LOAD_SHEET @ e))
      | Inr wb \<Rightarrow>
          (case sheet wb sheet_name of
             Inl e \<Rightarrow> Inl (Exception (EXC_LOAD_SHEET @ e))
           | Inr ws \<Rightarrow>
               (let headers = ws_row ws 1
                in if missing_columns headers \<noteq> []
                   then Inl (Exception
                               (EXC_MISSING @ str_join COMMA_SPACE (missing_columns headers)))
                   else Inr (read_rows headers (iter_rows ws 2)))))"

definition create_presentation :: presentation where
  "create_presentation = \<lparr>slide_width = SLIDE_WIDTH, slide_height = SLIDE_HEIGHT, slides = []\<rparr>"

text \<open>
  The loop of \<open>generate_ppt\<close> over \<open>enumerate(data)\<close>, with its progress lines, and the
  loop of \<open>generate_ppt_from_sheet\<close>, which prints nothing. An exception of
  \<open>generate_slide\<close> ends either loop.
\<close>

fun slides_loop_progress ::
  "nat \<Rightarrow> (nat \<times> row_dict) list \<Rightarrow> presentation \<Rightarrow> world \<Rightarrow> (exn + presentation) \<times> world" where
  "slides_loop_progress word_count [] ppt w = (Inr ppt, w)"
| "slides_loop_progress word_count ((index, row) # rest) ppt w =
     (let w = (if (index + 1) mod 10 = 0 \<or> index + 1 = word_count
               then print (MSG_PROGRESS (index + 1) word_count) w else w)
      in case generate_slide ppt row of
           Inl e \<Rightarrow> (Inl e, w)
         | Inr ppt \<Rightarrow> slides_loop_progress word_count rest ppt w)"

fun slides_loop :: "row_dict list \<Rightarrow> presentation \<Rightarrow> exn + presentation" where
  "slides_loop [] ppt = Inr ppt"
| "slides_loop (row # rest) ppt =
     (case generate_slide ppt row of
        Inl e \<Rightarrow> Inl e
      | Inr ppt \<Rightarrow> slides_loop rest ppt)"

definition generate_ppt ::
  "opener \<Rightarrow> saver \<Rightarrow> pystr option \<Rightarrow> pystr option \<Rightarrow> world \<Rightarrow> (exn + int) \<times> world" where
  "generate_ppt load_workbook save input_file output_file w =
     (let input_file = (case input_file of None \<Rightarrow> DEFAULT_INPUT | Some f \<Rightarrow> f);
          output_file = (case output_file of None \<Rightarrow> DEFAULT_OUTPUT | Some f \<Rightarrow> f)
      in case load_data load_workbook input_file w of
           (Inl e, w) \<Rightarrow> (Inl e, w)
         | (Inr data, w) \<Rightarrow>
             (let ppt = create_presentation;
                  word_count = length data;
                  w = print (MSG_START word_count) w
              in case slides_loop_progress word_count (enumerate 0 data) ppt w of
                   (Inl e, w) \<Rightarrow> (Inl e, w)
                 | (Inr ppt, w) \<Rightarrow>
                     (let w = w\<lparr>save_calls := save_calls w @ [(output_file, ppt)]\<rparr>
                      in case save output_file ppt of
                           None \<Rightarrow>
                             (Inr (int word_count),
                              print (MSG_COUNT word_count) (print (MSG_SUCCESS output_file) w))
                         | Some e \<Rightarrow> (Inr 0, print (MSG_SAVE_ERROR @ e) w))))"

definition generate_ppt_from_sheet ::
  "opener \<Rightarrow> saver \<Rightarrow> pystr \<Rightarrow> pystr \<Rightarrow> pystr \<Rightarrow> world \<Rightarrow> (exn + int) \<times> world" where
  "generate_ppt_from_sheet load_workbook save input_file output_file sheet_name w =
     (case load_data_from_sheet load_workbook input_file sheet_name of
        Inl e \<Rightarrow> (Inl e, w)
      | Inr data \<Rightarrow>
          (let ppt = create_presentation;
               word_count = length data
           in case slides_loop data ppt of
                Inl e \<Rightarrow> (Inl e, w)
              | Inr ppt \<Rightarrow>
                  (let w = w\<lparr>save_calls := save_calls w @ [(output_file, ppt)]\<rparr>
                   in case save output_file ppt of
                        None \<Rightarrow> (Inr (int word_count), w)
                      | Some e \<Rightarrow> (Inl (Exception (EXC_SAVE @ e)), w))))"

text \<open>
  The spec's wording of the split, for comparison with the comprehension of the source:
  consecutive chunks of \<open>n\<close> characters, of which only the last may be shorter.
\<close>

definition fixed_chunks :: "nat \<Rightarrow> 'a list \<Rightarrow> 'a list list" where
  "fixed_chunks n xs = map (\<lambda>k. take n (drop (k * n) xs)) [0..<(length xs - 1) div n + 1]"

text \<open>
  The spec's wording of the way back: whether a string contains the separator
  (\<open>WRAP_SEP in text\<close>), and a string with every separator stripped, found from left to
  right as \<open>out.replace(WRAP_SEP, '')\<close> finds them.
\<close>

fun contains_sep :: "pystr \<Rightarrow> bool" where
  "contains_sep [] = False"
| "contains_sep (c # cs) = (take (length WRAP_SEP) (c # cs) = WRAP_SEP \<or> contains_sep cs)"

function strip_separators :: "pystr \<Rightarrow> pystr" where
  "strip_separators [] = []"
| "strip_separators (c # cs) =
     (if take (length WRAP_SEP) (c # cs) = WRAP_SEP
      then strip_separators (drop (length WRAP_SEP) (c # cs))
      else c # strip_separators cs)"
  by pat_completeness auto
termination
  by (relation "measure length") (auto simp: WRAP_SEP_def)

declare strip_separators.simps(2) [simp del]

text \<open>
  The spec's wording of a record, for comparison with the loops of the reader: the
  dictionary built from the header cells zipped with the coerced cell values. As in any
  dictionary built from pairs, a later pair replaces an earlier one with an equal key.
\<close>

definition zip_record :: "cell list \<Rightarrow> cell list \<Rightarrow> row_dict" where
  "zip_record headers row =
     map_of (rev (zip (map dict_key headers)
                      (map (\<lambda>v. if v = CNone then [] else py_str v) row)))"

section \<open>Descriptions of slides\<close>

text \<open>
  For stating what a slide holds: a text box given by its rectangle, its fitting policy, its
  wrapping flag and the alignment, font size and text of the one paragraph added to it; the
  result of the wrapper at the default threshold in closed form; the rectangle of a text
  box; and the paragraph that the program added to it.
\<close>

definition region ::
  "int \<times> int \<times> int \<times> int \<Rightarrow> MSO_AUTO_SIZE \<Rightarrow> bool option \<Rightarrow> PP_PARAGRAPH_ALIGNMENT \<Rightarrow> int \<Rightarrow> pystr
   \<Rightarrow> textbox" where
  "region rect fit wrap align fsize txt =
     (case rect of (l, t, w, h) \<Rightarrow>
        \<lparr>sh_left = l, sh_top = t, sh_width = w, sh_height = h,
         auto_size = Some fit, word_wrap = wrap,
         paragraphs = [new_paragraph,
                       \<lparr>p_alignment = Some align, p_font_size = Some fsize, p_text = txt\<rparr>]\<rparr>)"

definition wrapped :: "pystr \<Rightarrow> pystr" where
  "wrapped s = (if length s \<le> 40 then s else str_join WRAP_SEP (fixed_chunks 40 s))"

definition rectangle :: "textbox \<Rightarrow> int \<times> int \<times> int \<times> int" where
  "rectangle tb = (sh_left tb, sh_top tb, sh_width tb, sh_height tb)"

definition added_paragraph :: "textbox \<Rightarrow> text_paragraph" where
  "added_paragraph tb = last (paragraphs tb)"

text \<open>
  The records that either loader returns for a worksheet with all required columns, and
  the deck that the slide loop builds from them.
\<close>

definition sheet_records :: "worksheet \<Rightarrow> row_dict list" where
  "sheet_records ws = read_rows (ws_row ws 1) (iter_rows ws 2)"

definition sheet_deck :: "worksheet \<Rightarrow> exn + presentation" where
  "sheet_deck ws = slides_loop (sheet_records ws) create_presentation"

section \<open>Sample inputs\<close>

text \<open>
  Concrete inputs for the examples below: a worksheet holding a given grid of cells (the
  first row is the header row), a workbook whose every sheet is that worksheet, an opener
  that returns a given workbook, a save that succeeds and one that fails, and the state
  before the run.
\<close>

definition sheet_of_rows :: "cell list list \<Rightarrow> worksheet" where
  "sheet_of_rows rows =
     \<lparr>max_row = length rows, max_column = length (hd rows),
      cell_value = (\<lambda>r c. rows ! (r - 1) ! (c - 1))\<rparr>"

definition book_of_sheet :: "worksheet \<Rightarrow> workbook" where
  "book_of_sheet ws = \<lparr>active = ws, sheet = (\<lambda>name. Inr ws)\<rparr>"

definition world0 :: world where
  "world0 = \<lparr>stdout = [], save_calls = []\<rparr>"

definition open_book :: "workbook \<Rightarrow> opener" where
  "open_book wb input_file = Inr wb"

definition save_ok :: saver where
  "save_ok output_file ppt = None"

definition save_denied :: saver where
  "save_denied output_file ppt = Some [0x64, 0x65, 0x6E, 0x69, 0x65, 0x64]"

definition sheet_short :: worksheet where
  "sheet_short = sheet_of_rows
     [[CStr COL_WORD, CStr COL_PHONETIC, CStr COL_MORPHOLOGY, CStr COL_EXAMPLE_DEF],
      [CStr [0x63, 0x61, 0x74], CNone, CNone, CNone]]"

text \<open>
  Two rows of the template generator's sample data (the second with its definition cell
  left empty), a row whose morphology cell holds exactly 40 characters, and the record the
  reader builds from a row under the six required headers.
\<close>

definition row_apple :: "cell list" where
  "row_apple =
     [CStr [0x61, 0x70, 0x70, 0x6C, 0x65],
      CStr [0x2F, 0x2C8, 0xE6, 0x70, 0x6C, 0x2F],
      CStr [0x61, 0x2D, 0x70, 0x70, 0x6C, 0x65],
      CStr [0x49, 0x20, 0x65, 0x61, 0x74, 0x20, 0x61, 0x6E, 0x20, 0x61, 0x70, 0x70, 0x6C, 0x65,
            0x20, 0x65, 0x76, 0x65, 0x72, 0x79, 0x20, 0x64, 0x61, 0x79, 0x2E],
      CStr [0x6211, 0x6BCF, 0x5929, 0x5403, 0x4E00, 0x4E2A, 0x82F9, 0x679C, 0x3002],
      CStr [0x82F9, 0x679C]]"

definition row_cat :: "cell list" where
  "row_cat =
     [CStr [0x63, 0x61, 0x74],
      CStr [0x2F, 0x6B, 0xE6, 0x74, 0x2F],
      CStr [0x63, 0x61, 0x74],
      CStr [0x54, 0x68, 0x65, 0x20, 0x63, 0x61, 0x74, 0x20, 0x69, 0x73, 0x20, 0x73, 0x6C, 0x65,
            0x65, 0x70, 0x69, 0x6E, 0x67, 0x2E],
      CStr [0x732B, 0x5728, 0x7761, 0x89C9, 0x3002],
      CNone]"

definition record_of :: "cell list \<Rightarrow> row_dict" where
  "record_of row = hd (read_rows (map CStr REQUIRED_COLUMNS) [row])"

definition row_long :: "cell list" where
  "row_long =
     [CStr [0x63, 0x61, 0x74], CStr [0x2F, 0x6B, 0xE6, 0x74, 0x2F], CStr (replicate 40 0x61),
      CNone, CNone, CNone]"

text \<open>
  A worksheet with the six headers and the two sample rows, and one with the headers only.
\<close>

definition sheet_words :: worksheet where
  "sheet_words = sheet_of_rows [map CStr REQUIRED_COLUMNS, row_apple, row_cat]"

definition sheet_empty :: worksheet where
  "sheet_empty = sheet_of_rows [map CStr REQUIRED_COLUMNS]"

section \<open>Properties of the text wrapper\<close>

text \<open>
  C4. A string whose length is at most the threshold is returned unchanged, for every
  threshold; at the default threshold, which is 40, every string of at most 40 characters
  is returned unchanged. Wrapping such a string again therefore changes nothing either.
\<close>

theorem process_text_short_identity:
  assumes "int (length text) \<le> threshold"
  shows "process_text text threshold = Inr text
         \<and> TEXT_WRAP_THRESHOLD = 40
         \<and> (length text \<le> 40 \<longrightarrow> process_text text TEXT_WRAP_THRESHOLD = Inr text)
         \<and> bind_exn (process_text text threshold) (\<lambda>t. process_text t threshold) = Inr text"
proof -
  have "process_text text threshold = Inr text"
    using assms by (simp add: process_text_def)
  moreover have "length text \<le> 40 \<longrightarrow> process_text text TEXT_WRAP_THRESHOLD = Inr text"
    by (simp add: process_text_def TEXT_WRAP_THRESHOLD_def)
  ultimately show ?thesis
    by (simp add: bind_exn_def TEXT_WRAP_THRESHOLD_def)
qed

theorem process_text_short_identity_witness:
  "int (length [0x61, 0x70, 0x70, 0x6C, 0x65 :: nat]) \<le> TEXT_WRAP_THRESHOLD
   \<and> process_text [0x61, 0x70, 0x70, 0x6C, 0x65] TEXT_WRAP_THRESHOLD
       = Inr [0x61, 0x70, 0x70, 0x6C, 0x65]"
proof -
  have h: "int (length [0x61, 0x70, 0x70, 0x6C, 0x65 :: nat]) \<le> TEXT_WRAP_THRESHOLD"
    by (simp add: TEXT_WRAP_THRESHOLD_def)
  from process_text_short_identity [OF h] h show ?thesis
    by (elim conjE) (intro conjI; assumption)
qed

lemma concat_take_drop_chunks:
  "concat (map (\<lambda>k. take n (drop (k * n) xs)) [0..<m]) = take (m * n) xs"
proof (induction m)
  case 0
  show ?case by simp
next
  case (Suc m)
  have "take (m * n) xs @ take n (drop (m * n) xs) = take (m * n + n) xs"
    by (simp add: take_add)
  with Suc show ?case by (simp add: add.commute)
qed

lemma py_slice_chunk:
  assumes "0 < t"
  shows "py_slice text (int k * t) (int k * t + t) = take (nat t) (drop (k * nat t) text)"
proof -
  have lo: "nat (int k * t) = k * nat t"
    using assms by (simp add: nat_mult_distrib)
  have hi: "nat (int k * t + t) = k * nat t + nat t"
    using assms lo by (simp add: nat_add_distrib)
  have n0: "0 \<le> int k * t"
    using assms by simp
  have nn: "\<not> int k * t < 0" "\<not> int k * t + t < 0"
    using assms n0 by linarith+
  show ?thesis
    unfolding py_slice_def slice_bound_def Let_def
    by (simp only: nn if_False lo hi) (simp add: min_def)
qed

lemma range_len_pos:
  assumes "0 < t" "0 < n"
  shows "range_len 0 (int n) t = (n - 1) div nat t + 1"
proof -
  have "(int n - 1) div t = int ((n - 1) div nat t)"
    using assms by (simp add: zdiv_int)
  then show ?thesis
    using assms by (simp add: range_len_def nat_add_distrib)
qed

lemma process_text_long:
  assumes "0 < t" "t < int (length text)"
  shows "process_text text t = Inr (str_join WRAP_SEP (fixed_chunks (nat t) text))"
proof -
  have len: "0 < length text" using assms by auto
  have "map (\<lambda>i. py_slice text i (i + t)) (map (\<lambda>k. 0 + int k * t) [0..<range_len 0 (int (length text)) t])
        = fixed_chunks (nat t) text"
    using assms(1) len by (simp add: fixed_chunks_def range_len_pos py_slice_chunk o_def)
  then show ?thesis
    using assms by (simp add: process_text_def py_range_def)
qed

lemma length_WRAP_SEP: "length WRAP_SEP = 19"
  by (simp add: WRAP_SEP_def)

lemma WRAP_SEP_replicate: "WRAP_SEP = 0xA # replicate 18 0x20"
  by (simp add: WRAP_SEP_def eval_nat_numeral)

lemma strip_separators_sep: "strip_separators (WRAP_SEP @ rest) = strip_separators rest"
proof -
  have "take (length WRAP_SEP) (0xA # replicate 18 0x20 @ rest) = WRAP_SEP"
    by (simp add: WRAP_SEP_replicate)
  moreover have "drop (length WRAP_SEP) (0xA # replicate 18 0x20 @ rest) = rest"
    by (simp add: WRAP_SEP_replicate)
  ultimately have "strip_separators (0xA # replicate 18 0x20 @ rest) = strip_separators rest"
    by (simp add: strip_separators.simps(2))
  then show ?thesis by (simp add: WRAP_SEP_replicate)
qed

lemma strip_separators_clean: "\<not> contains_sep xs \<Longrightarrow> strip_separators xs = xs"
  by (induction xs) (simp_all add: strip_separators.simps(2))

lemma no_sep_across:
  assumes "take (length WRAP_SEP) (c # cs) \<noteq> WRAP_SEP"
  shows "take (length WRAP_SEP) (c # cs @ WRAP_SEP @ rest) \<noteq> WRAP_SEP"
proof (cases "18 \<le> length cs")
  case True
  then have "take (length WRAP_SEP) (c # cs @ WRAP_SEP @ rest) = take (length WRAP_SEP) (c # cs)"
    by (simp add: length_WRAP_SEP)
  with assms show ?thesis by simp
next
  case False
  then have k: "length cs < 18" by simp
  show ?thesis
  proof
    assume e: "take (length WRAP_SEP) (c # cs @ WRAP_SEP @ rest) = WRAP_SEP"
    have "Suc (length cs) < length WRAP_SEP"
      using k by (simp add: length_WRAP_SEP)
    then have "take (length WRAP_SEP) (c # cs @ WRAP_SEP @ rest) ! Suc (length cs)
            = (c # cs @ WRAP_SEP @ rest) ! Suc (length cs)"
      by (rule nth_take)
    also have "\<dots> = (WRAP_SEP @ rest) ! 0"
      by (simp add: nth_append)
    also have "\<dots> = WRAP_SEP ! 0"
      by (simp add: WRAP_SEP_replicate)
    also have "\<dots> = 0xA"
      by (simp add: WRAP_SEP_replicate)
    finally have "WRAP_SEP ! Suc (length cs) = 0xA"
      unfolding e .
    moreover have "WRAP_SEP ! Suc (length cs) = 0x20"
      using k by (simp add: WRAP_SEP_replicate)
    ultimately show False by simp
  qed
qed

lemma strip_separators_chunk:
  "\<not> contains_sep pre \<Longrightarrow>
   strip_separators (pre @ WRAP_SEP @ rest) = pre @ strip_separators rest"
proof (induction pre)
  case Nil
  show ?case by (simp add: strip_separators_sep)
next
  case (Cons c cs)
  from Cons.prems have n: "take (length WRAP_SEP) (c # cs) \<noteq> WRAP_SEP"
    and r: "\<not> contains_sep cs"
    by simp_all
  from no_sep_across [OF n]
  have "strip_separators (c # cs @ WRAP_SEP @ rest) = c # strip_separators (cs @ WRAP_SEP @ rest)"
    by (simp add: strip_separators.simps(2))
  with Cons.IH [OF r] show ?case by simp
qed

lemma strip_separators_join:
  assumes "\<forall>c \<in> set cs. \<not> contains_sep c"
  shows "strip_separators (str_join WRAP_SEP cs) = concat cs"
  using assms
proof (induction cs rule: induct_list012)
  case 1
  show ?case by simp
next
  case (2 x)
  then show ?case by (simp add: strip_separators_clean)
next
  case (3 x y zs)
  then show ?case by (simp add: strip_separators_chunk)
qed

lemma contains_sep_take: "contains_sep (take n xs) \<Longrightarrow> contains_sep xs"
proof (induction xs arbitrary: n)
  case Nil
  then show ?case by simp
next
  case (Cons c cs)
  show ?case
  proof (cases n)
    case 0
    with Cons.prems show ?thesis by simp
  next
    case (Suc m)
    with Cons.prems
    have "take (length WRAP_SEP) (take (Suc m) (c # cs)) = WRAP_SEP \<or> contains_sep (take m cs)"
      by simp
    then show ?thesis
    proof
      assume e: "take (length WRAP_SEP) (take (Suc m) (c # cs)) = WRAP_SEP"
      then have "length (take (length WRAP_SEP) (take (Suc m) (c # cs))) = length WRAP_SEP"
        by simp
      then have "length WRAP_SEP \<le> Suc m" by simp
      then have "take (length WRAP_SEP) (take (Suc m) (c # cs)) = take (length WRAP_SEP) (c # cs)"
        by (simp only: take_take min.absorb1)
      with e show ?thesis by simp
    next
      assume "contains_sep (take m cs)"
      then have "contains_sep cs" by (rule Cons.IH)
      then show ?thesis by simp
    qed
  qed
qed

lemma contains_sep_drop: "contains_sep (drop n xs) \<Longrightarrow> contains_sep xs"
proof (induction xs arbitrary: n)
  case Nil
  then show ?case by simp
next
  case (Cons c cs)
  then show ?case by (cases n) auto
qed

lemma fixed_chunks_no_sep:
  assumes "\<not> contains_sep xs"
  shows "\<forall>c \<in> set (fixed_chunks n xs). \<not> contains_sep c"
proof
  fix c assume "c \<in> set (fixed_chunks n xs)"
  then obtain k where c: "c = take n (drop (k * n) xs)"
    unfolding fixed_chunks_def by (auto simp del: upt_Suc)
  show "\<not> contains_sep c"
  proof
    assume "contains_sep c"
    then have "contains_sep (drop (k * n) xs)"
      unfolding c by (rule contains_sep_take)
    then have "contains_sep xs"
      by (rule contains_sep_drop)
    with assms show False by contradiction
  qed
qed

lemma no_newline_no_sep: "0xA \<notin> set xs \<Longrightarrow> \<not> contains_sep xs"
proof (induction xs)
  case Nil
  show ?case by simp
next
  case (Cons c cs)
  then have "c \<noteq> 0xA" by auto
  then have "take (length WRAP_SEP) (c # cs) \<noteq> WRAP_SEP"
    by (auto simp: WRAP_SEP_replicate length_WRAP_SEP[unfolded WRAP_SEP_replicate])
  with Cons show ?case by simp
qed

lemma fixed_chunks_facts:
  assumes "0 < n" "n < length xs"
  shows "concat (fixed_chunks n xs) = xs"
    and "length (fixed_chunks n xs) = (length xs - 1) div n + 1"
    and "2 \<le> length (fixed_chunks n xs)"
    and "\<forall>k < length (fixed_chunks n xs) - 1. length (fixed_chunks n xs ! k) = n"
    and "0 < length (last (fixed_chunks n xs))"
    and "length (last (fixed_chunks n xs)) \<le> n"
proof -
  let ?q = "(length xs - 1) div n"
  have lo: "?q * n \<le> length xs - 1"
    by simp
  have hi: "length xs - 1 < (?q + 1) * n"
    using assms(1) by (metis Suc_eq_plus1 dividend_less_div_times mult.commute mult_Suc_right)
  have q1: "1 \<le> ?q"
    using assms by (simp add: Suc_le_eq div_greater_zero_iff)
  show "concat (fixed_chunks n xs) = xs"
    using hi by (simp add: fixed_chunks_def concat_take_drop_chunks)
  show "length (fixed_chunks n xs) = ?q + 1"
    by (simp add: fixed_chunks_def)
  show "2 \<le> length (fixed_chunks n xs)"
    using q1 by (simp add: fixed_chunks_def)
  show "\<forall>k < length (fixed_chunks n xs) - 1. length (fixed_chunks n xs ! k) = n"
  proof (intro allI impI)
    fix k assume "k < length (fixed_chunks n xs) - 1"
    then have k: "k < ?q" by (simp add: fixed_chunks_def)
    then have "k + 1 \<le> ?q" by simp
    then have "(k + 1) * n \<le> ?q * n" by (rule mult_le_mono1)
    with lo have "(k + 1) * n \<le> length xs - 1" by (rule le_trans [rotated])
    then have "k * n + n \<le> length xs" by simp
    with k show "length (fixed_chunks n xs ! k) = n"
      by (simp add: fixed_chunks_def nth_append)
  qed
  have last_eq: "last (fixed_chunks n xs) = take n (drop (?q * n) xs)"
    by (simp add: fixed_chunks_def)
  have "?q * n < length xs"
    using lo assms by linarith
  then show "0 < length (last (fixed_chunks n xs))"
    using assms by (simp add: last_eq)
  show "length (last (fixed_chunks n xs)) \<le> n"
    by (simp add: last_eq)
qed

text \<open>
  C3 (as amended). For every threshold of at least 1 and every string strictly longer than
  it, the wrapper returns the fixed-size chunks of the string (each of exactly
  \<open>threshold\<close> characters, the last one non-empty and at most that long, at least two of
  them) joined by a newline followed by 18 spaces, and concatenating the chunks gives the
  original string back. Stripping the separators from the wrapped output gives the original
  string back when no chunk contains the separator itself, as is the case when the
  original string does not contain it.
\<close>

theorem process_text_wrap_roundtrip:
  assumes "0 < threshold" and "threshold < int (length text)"
  shows "process_text text threshold
           = Inr (str_join WRAP_SEP (fixed_chunks (nat threshold) text))
         \<and> WRAP_SEP = 0xA # replicate 18 0x20
         \<and> concat (fixed_chunks (nat threshold) text) = text
         \<and> 2 \<le> length (fixed_chunks (nat threshold) text)
         \<and> (\<forall>k < length (fixed_chunks (nat threshold) text) - 1.
               length (fixed_chunks (nat threshold) text ! k) = nat threshold)
         \<and> 0 < length (last (fixed_chunks (nat threshold) text))
         \<and> length (last (fixed_chunks (nat threshold) text)) \<le> nat threshold
         \<and> ((\<forall>c \<in> set (fixed_chunks (nat threshold) text). \<not> contains_sep c) \<longrightarrow>
               strip_separators (str_join WRAP_SEP (fixed_chunks (nat threshold) text)) = text)
         \<and> (\<not> contains_sep text \<longrightarrow>
               (\<forall>c \<in> set (fixed_chunks (nat threshold) text). \<not> contains_sep c))"
proof -
  let ?n = "nat threshold" and ?cs = "fixed_chunks (nat threshold) text"
  have n: "0 < ?n" "?n < length text" using assms by auto
  note f = fixed_chunks_facts [OF n]
  have "(\<forall>c \<in> set ?cs. \<not> contains_sep c) \<longrightarrow>
             strip_separators (str_join WRAP_SEP ?cs) = concat ?cs"
    by (rule impI) (rule strip_separators_join)
  then have s: "(\<forall>c \<in> set ?cs. \<not> contains_sep c) \<longrightarrow>
             strip_separators (str_join WRAP_SEP ?cs) = text"
    unfolding f(1) .
  have c: "\<not> contains_sep text \<longrightarrow> (\<forall>c \<in> set ?cs. \<not> contains_sep c)"
    by (rule impI) (rule fixed_chunks_no_sep)
  show ?thesis
    apply (intro conjI)
    subgoal by (rule process_text_long [OF assms])
    subgoal by (rule WRAP_SEP_replicate)
    subgoal by (rule f(1))
    subgoal by (rule f(3))
    subgoal by (rule f(4))
    subgoal by (rule f(5))
    subgoal by (rule f(6))
    subgoal by (rule s)
    subgoal by (rule c)
    done
qed

theorem process_text_wrap_roundtrip_witness:
  "(0::int) < 3 \<and> 3 < int (length [1, 2, 3, 4, 5, 6, 7 :: nat])
   \<and> process_text [1, 2, 3, 4, 5, 6, 7] 3
       = Inr ([1, 2, 3] @ WRAP_SEP @ [4, 5, 6] @ WRAP_SEP @ [7])
   \<and> strip_separators ([1, 2, 3] @ WRAP_SEP @ [4, 5, 6] @ WRAP_SEP @ [7])
       = [1, 2, 3, 4, 5, 6, 7]"
proof -
  have h1: "(0::int) < 3" by simp
  have h2: "3 < int (length [1, 2, 3, 4, 5, 6, 7 :: nat])" by simp
  have c: "fixed_chunks (nat 3) [1, 2, 3, 4, 5, 6, 7 :: nat] = [[1, 2, 3], [4, 5, 6], [7]]"
    by (simp add: fixed_chunks_def upt_rec)
  have n1: "\<not> contains_sep [1, 2, 3]"
    by (rule no_newline_no_sep) simp
  have n2: "\<not> contains_sep [4, 5, 6]"
    by (rule no_newline_no_sep) simp
  have n3: "\<not> contains_sep [7]"
    by (rule no_newline_no_sep) simp
  have n: "\<forall>c \<in> set [[1, 2, 3], [4, 5, 6], [7 :: nat]]. \<not> contains_sep c"
  proof
    fix c :: pystr
    assume "c \<in> set [[1, 2, 3], [4, 5, 6], [7]]"
    then have "c = [1, 2, 3] \<or> c = [4, 5, 6] \<or> c = [7]" by simp
    with n1 n2 n3 show "\<not> contains_sep c" by blast
  qed
  note t = process_text_wrap_roundtrip [OF h1 h2, unfolded c]
  from t have p: "process_text [1, 2, 3, 4, 5, 6, 7] 3
       = Inr (str_join WRAP_SEP [[1, 2, 3], [4, 5, 6], [7]])"
    by (rule conjunct1)
  from t have "(\<forall>c \<in> set [[1, 2, 3], [4, 5, 6], [7 :: nat]]. \<not> contains_sep c) \<longrightarrow>
      strip_separators (str_join WRAP_SEP [[1, 2, 3], [4, 5, 6], [7]]) = [1, 2, 3, 4, 5, 6, 7]"
    by (elim conjE)
  with n have r: "strip_separators (str_join WRAP_SEP [[1, 2, 3], [4, 5, 6], [7]])
      = [1, 2, 3, 4, 5, 6, 7]"
    by (rule rev_mp)
  from h1 h2 p r show ?thesis by simp
qed

text \<open>
  The claim as first stated. For every threshold: a one-character string is strictly
  longer than the thresholds 0 and -1, yet \<open>range\<close> rejects a zero step, and with a
  negative step it is empty, so that the result is the empty string. For every string: at
  the default threshold, 40 letters followed by the separator and one more letter are
  wrapped with a second separator next to the string's own, and stripping the separators
  takes both away.
\<close>

theorem process_text_roundtrip_counterexample:
  "process_text [0x61] 0 = Inl ValueError
   \<and> process_text [0x61] (-1) = Inr []
   \<and> process_text (replicate 40 0x61 @ WRAP_SEP @ [0x62]) TEXT_WRAP_THRESHOLD
       = Inr (replicate 40 0x61 @ WRAP_SEP @ WRAP_SEP @ [0x62])
   \<and> strip_separators (replicate 40 0x61 @ WRAP_SEP @ WRAP_SEP @ [0x62])
       = replicate 40 0x61 @ [0x62]
   \<and> replicate 40 0x61 @ [0x62] \<noteq> replicate 40 0x61 @ WRAP_SEP @ [0x62]"
proof -
  let ?a = "replicate 40 (0x61::nat)"
  have z: "process_text [0x61] 0 = Inl ValueError \<and> process_text [0x61] (-1) = Inr []"
    by (simp add: process_text_def py_range_def range_len_def)
  have l: "length (?a @ WRAP_SEP @ [0x62]) = 60"
    by (simp add: length_WRAP_SEP)
  have "fixed_chunks 40 (?a @ WRAP_SEP @ [0x62]) = [?a, WRAP_SEP @ [0x62]]"
    unfolding fixed_chunks_def l by (simp add: upt_rec length_WRAP_SEP)
  moreover have "(40::int) < int (length (?a @ WRAP_SEP @ [0x62]))"
    unfolding l by simp
  ultimately have p: "process_text (?a @ WRAP_SEP @ [0x62]) TEXT_WRAP_THRESHOLD
       = Inr (?a @ WRAP_SEP @ WRAP_SEP @ [0x62])"
    using process_text_long [of 40 "?a @ WRAP_SEP @ [0x62]"]
    by (simp add: TEXT_WRAP_THRESHOLD_def)
  have "\<not> contains_sep ?a"
    by (rule no_newline_no_sep) simp
  then have "strip_separators (?a @ WRAP_SEP @ WRAP_SEP @ [0x62])
               = ?a @ strip_separators (WRAP_SEP @ [0x62])"
    by (rule strip_separators_chunk)
  also have "strip_separators (WRAP_SEP @ [0x62]) = [0x62]"
    by (simp add: strip_separators_sep strip_separators.simps(2) length_WRAP_SEP
        WRAP_SEP_replicate)
  finally have s: "strip_separators (?a @ WRAP_SEP @ WRAP_SEP @ [0x62]) = ?a @ [0x62]" .
  have d: "?a @ [0x62] \<noteq> ?a @ WRAP_SEP @ [0x62]"
    by (simp add: WRAP_SEP_replicate)
  from z p s d show ?thesis by simp
qed

section \<open>Properties of the spreadsheet reader\<close>

lemma map_add_upd_split: "d(h \<mapsto> x) ++ m = d ++ (Map.empty(h \<mapsto> x) ++ m)"
  by (rule ext) (simp add: map_add_def split: option.split)

lemma fill_row_zip:
  "fill_row headers (enumerate k row) d =
     d ++ map_of (rev (zip (map dict_key (drop k headers))
                           (map (\<lambda>v. if v \<noteq> CNone then py_str v else []) row)))"
proof (induction row arbitrary: k d)
  case Nil
  show ?case by simp
next
  case (Cons v row)
  let ?f = "\<lambda>v. if v \<noteq> CNone then py_str v else []"
  show ?case
  proof (cases "k < length headers")
    case True
    then have d: "drop k headers = headers ! k # drop (Suc k) headers"
      by (simp add: Cons_nth_drop_Suc)
    have "fill_row headers (enumerate k (v # row)) d =
          fill_row headers (enumerate (Suc k) row) (d(dict_key (headers ! k) \<mapsto> ?f v))"
      using True by simp
    also have "\<dots> = d(dict_key (headers ! k) \<mapsto> ?f v)
                 ++ map_of (rev (zip (map dict_key (drop (Suc k) headers)) (map ?f row)))"
      by (rule Cons.IH)
    also have "\<dots> = d ++ map_of (rev (zip (map dict_key (drop k headers)) (map ?f (v # row))))"
      unfolding d by (subst map_add_upd_split) simp
    finally show ?thesis .
  next
    case False
    then show ?thesis by (simp add: Cons.IH)
  qed
qed

lemma map_of_rev_last:
  assumes "i < length ps" "\<forall>j. i < j \<and> j < length ps \<longrightarrow> fst (ps ! j) \<noteq> fst (ps ! i)"
  shows "map_of (rev ps) (fst (ps ! i)) = Some (snd (ps ! i))"
  using assms
proof (induction ps rule: rev_induct)
  case Nil
  then show ?case by simp
next
  case (snoc p ps)
  show ?case
  proof (cases "i < length ps")
    case True
    with snoc.prems(2) have ne: "fst p \<noteq> fst (ps ! i)"
      by (auto simp: nth_append dest: spec [where x = "length ps"])
    have "\<forall>j. i < j \<and> j < length ps \<longrightarrow> fst (ps ! j) \<noteq> fst (ps ! i)"
    proof (intro allI impI)
      fix j assume j: "i < j \<and> j < length ps"
      with snoc.prems(2) [rule_format, of j] True show "fst (ps ! j) \<noteq> fst (ps ! i)"
        by (simp add: nth_append)
    qed
    with snoc.IH True have "map_of (rev ps) (fst (ps ! i)) = Some (snd (ps ! i))" by simp
    with True ne show ?thesis by (cases p) (auto simp: nth_append)
  next
    case False
    with snoc.prems(1) have "i = length ps" by simp
    then show ?thesis by (cases p) simp
  qed
qed

lemma read_rows_eq: "read_rows headers rows = map (zip_record headers) rows"
proof -
  have "(\<lambda>v. if v \<noteq> CNone then py_str v else []) = (\<lambda>v. if v = CNone then [] else py_str v)"
    by auto
  then show ?thesis
    using fill_row_zip [of headers 0 _ Map.empty]
    by (simp add: read_rows_def zip_record_def)
qed

lemma zip_record_key:
  assumes "i < length headers" "i < length row"
  shows "dict_key (headers ! i) \<in> dom (zip_record headers row)"
proof -
  let ?ps = "zip (map dict_key headers) (map (\<lambda>v. if v = CNone then [] else py_str v) row)"
  have "i < length ?ps" using assms by simp
  then have "?ps ! i \<in> set ?ps" by (rule nth_mem)
  then have "fst (?ps ! i) \<in> fst ` set ?ps" by (rule imageI)
  moreover have "fst (?ps ! i) = dict_key (headers ! i)" using assms by simp
  ultimately have "dict_key (headers ! i) \<in> fst ` set ?ps" by simp
  then show ?thesis
    unfolding zip_record_def by (simp only: dom_map_of_conv_image_fst set_rev)
qed

lemma zip_record_value:
  assumes "i < length headers" "i < length row"
    and "\<forall>j. i < j \<and> j < length headers \<and> j < length row
           \<longrightarrow> dict_key (headers ! j) \<noteq> dict_key (headers ! i)"
  shows "zip_record headers row (dict_key (headers ! i))
           = Some (if row ! i = CNone then [] else py_str (row ! i))"
proof -
  let ?ps = "zip (map dict_key headers) (map (\<lambda>v. if v = CNone then [] else py_str v) row)"
  have i: "i < length ?ps" using assms by simp
  have "\<forall>j. i < j \<and> j < length ?ps \<longrightarrow> fst (?ps ! j) \<noteq> fst (?ps ! i)"
    using assms by simp
  from map_of_rev_last [OF i this] show ?thesis
    using assms by (simp add: zip_record_def)
qed

text \<open>
  C8 (as amended). For every data row, the record is the dictionary of the header cells
  zipped positionally with the row's cell values, a \<open>None\<close> cell mapped to the empty
  string and any other cell to its \<open>str()\<close>; when two header cells are equal as
  dictionary keys (the same name, or equal numbers such as 1 and \<open>True\<close>), the last
  column of them supplies the value. So the header of every cell is a key of the record,
  never absent, and a cell whose header is not repeated in a later column yields its own
  coerced value: the empty string when the cell is empty.
\<close>

theorem read_rows_zip_last_wins:
  "read_rows headers rows = map (zip_record headers) rows
   \<and> (\<forall>r i. r < length rows \<and> i < length headers \<and> i < length (rows ! r) \<longrightarrow>
         dict_key (headers ! i) \<in> dom (read_rows headers rows ! r)
         \<and> ((\<forall>j. i < j \<and> j < length headers \<and> j < length (rows ! r)
                 \<longrightarrow> dict_key (headers ! j) \<noteq> dict_key (headers ! i)) \<longrightarrow>
              (read_rows headers rows ! r) (dict_key (headers ! i))
                = Some (if rows ! r ! i = CNone then [] else py_str (rows ! r ! i))))"
  by (simp add: read_rows_eq zip_record_key zip_record_value)

theorem read_rows_zip_last_wins_witness:
  "(read_rows [CStr [0x61], CStr [0x62]] [[CNone, CInt 12]] ! 0) (CStr [0x61]) = Some []
   \<and> (read_rows [CStr [0x61], CStr [0x62]] [[CNone, CInt 12]] ! 0) (CStr [0x62])
       = Some [0x31, 0x32]"
proof -
  let ?hs = "[CStr [0x61], CStr [0x62]]" and ?rows = "[[CNone, CInt 12]]"
  have s: "str_int 12 = [0x31, 0x32]"
    by (simp add: str_int_def str_nat.simps)
  from read_rows_zip_last_wins [of ?hs ?rows]
  have a: "\<forall>r i. r < length ?rows \<and> i < length ?hs \<and> i < length (?rows ! r) \<longrightarrow>
         dict_key (?hs ! i) \<in> dom (read_rows ?hs ?rows ! r)
         \<and> ((\<forall>j. i < j \<and> j < length ?hs \<and> j < length (?rows ! r)
                \<longrightarrow> dict_key (?hs ! j) \<noteq> dict_key (?hs ! i)) \<longrightarrow>
              (read_rows ?hs ?rows ! r) (dict_key (?hs ! i))
                = Some (if ?rows ! r ! i = CNone then [] else py_str (?rows ! r ! i)))"
    by (rule conjunct2)
  from a [rule_format, of 0 0] have "(read_rows ?hs ?rows ! 0) (CStr [0x61]) = Some []"
    by (simp add: nth_Cons')
  moreover from a [rule_format, of 0 1]
  have "(read_rows ?hs ?rows ! 0) (CStr [0x62]) = Some [0x31, 0x32]"
    by (simp add: s)
  ultimately show ?thesis by simp
qed

text \<open>
  The claim as first stated: with the header name repeated in the second column, the
  empty cell of the first column does not give the field the empty string.
\<close>

theorem read_rows_repeated_header_counterexample:
  "hd (read_rows [CStr [0x61], CStr [0x61]] [[CNone, CStr [0x78]]]) (CStr [0x61]) = Some [0x78]"
  by (simp add: read_rows_def enumerate_eq_zip upt_rec)

text \<open>
  Header cells that are equal as numbers are one key as well: under the headers 1 and
  \<open>True\<close> the second column supplies the value filed under 1, and likewise under the
  headers 1 and 1.0.
\<close>

lemma read_rows_numeric_headers:
  "hd (read_rows [CInt 1, CBool True] [[CNone, CStr [0x71]]]) (dict_key (CInt 1)) = Some [0x71]"
  "hd (read_rows [CInt 1, CFloat 1 [0x31, 0x2E, 0x30]] [[CNone, CStr [0x71]]]) (dict_key (CInt 1))
     = Some [0x71]"
  "hd (read_rows [CFloat (1 / 2) [0x30, 0x2E, 0x35], CInt 1] [[CNone, CStr [0x71]]])
     (dict_key (CFloat (1 / 2) [0x30, 0x2E, 0x35])) = Some []"
proof -
  have h: "\<lfloor>1 / 2 :: rat\<rfloor> = 0"
    by (rule floor_unique) simp_all
  show "hd (read_rows [CInt 1, CBool True] [[CNone, CStr [0x71]]]) (dict_key (CInt 1))
          = Some [0x71]"
    by (simp add: read_rows_def enumerate_eq_zip upt_rec)
  show "hd (read_rows [CInt 1, CFloat 1 [0x31, 0x2E, 0x30]] [[CNone, CStr [0x71]]])
          (dict_key (CInt 1)) = Some [0x71]"
    by (simp add: read_rows_def enumerate_eq_zip upt_rec)
  show "hd (read_rows [CFloat (1 / 2) [0x30, 0x2E, 0x35], CInt 1] [[CNone, CStr [0x71]]])
          (dict_key (CFloat (1 / 2) [0x30, 0x2E, 0x35])) = Some []"
    by (simp add: read_rows_def enumerate_eq_zip upt_rec h)
qed

lemma set_missing_columns:
  "set (missing_columns headers) = {c \<in> set REQUIRED_COLUMNS. CStr c \<notin> set headers}"
  by (auto simp: missing_columns_def)

lemma missing_columns_set_cong:
  "set headers' = set headers \<Longrightarrow> missing_columns headers' = missing_columns headers"
  by (simp add: missing_columns_def)

lemma missing_columns_Nil_iff:
  "missing_columns headers = [] \<longleftrightarrow> CStr ` set REQUIRED_COLUMNS \<subseteq> set headers"
  by (auto simp: missing_columns_def filter_empty_conv)

lemma load_data_missing:
  assumes "load_workbook f = Inr wb" "missing_columns (ws_row (active wb) 1) \<noteq> []"
  shows "load_data load_workbook f w
           = (Inl (SystemExit 1),
              print (MSG_MISSING @ str_join COMMA_SPACE (missing_columns (ws_row (active wb) 1))) w)"
  unfolding load_data_def Let_def using assms by (simp only: sum.case if_True simp_thms)

lemma generate_ppt_load_fail:
  assumes "load_data load_workbook (case input_file of None \<Rightarrow> DEFAULT_INPUT | Some f \<Rightarrow> f) w
             = (Inl e, w')"
  shows "generate_ppt load_workbook save input_file output_file w = (Inl e, w')"
  unfolding generate_ppt_def Let_def using assms by (simp only: prod.case sum.case)

lemma load_data_from_sheet_missing:
  assumes "load_workbook f = Inr wb" "sheet wb sheet_name = Inr ws"
    "missing_columns (ws_row ws 1) \<noteq> []"
  shows "load_data_from_sheet load_workbook f sheet_name
           = Inl (Exception (EXC_MISSING @ str_join COMMA_SPACE (missing_columns (ws_row ws 1))))"
  unfolding load_data_from_sheet_def Let_def using assms by (simp only: sum.case if_True simp_thms)

lemma generate_ppt_from_sheet_load_fail:
  assumes "load_data_from_sheet load_workbook f sheet_name = Inl e"
  shows "generate_ppt_from_sheet load_workbook save f output_file sheet_name w = (Inl e, w)"
  unfolding generate_ppt_from_sheet_def using assms by (simp only: sum.case)

text \<open>
  C2. When a required column name is absent from the header row, the list of missing
  columns is non-empty and holds exactly the absent required names, whatever the order of
  the header cells. \<open>load_data\<close> then prints the message listing them and exits with
  status 1, and \<open>generate_ppt\<close> ends the same way, having made no call to
  \<open>ppt.save\<close>; \<open>load_data_from_sheet\<close> raises an exception whose message lists
  them, and \<open>generate_ppt_from_sheet\<close> passes it on with the state unchanged. The
  outcome is given by the header row alone: no data row is read and no slide is built.
\<close>

theorem missing_columns_abort:
  assumes "\<not> CStr ` set REQUIRED_COLUMNS \<subseteq> set (ws_row ws 1)"
  shows "missing_columns (ws_row ws 1) \<noteq> []
    \<and> set (missing_columns (ws_row ws 1))
        = {c \<in> set REQUIRED_COLUMNS. CStr c \<notin> set (ws_row ws 1)}
    \<and> (\<forall>headers'. set headers' = set (ws_row ws 1)
          \<longrightarrow> missing_columns headers' = missing_columns (ws_row ws 1))
    \<and> (load_workbook (case input_file of None \<Rightarrow> DEFAULT_INPUT | Some f \<Rightarrow> f) = Inr wb
         \<and> active wb = ws \<longrightarrow>
           load_data load_workbook (case input_file of None \<Rightarrow> DEFAULT_INPUT | Some f \<Rightarrow> f) w
             = (Inl (SystemExit 1),
                print (MSG_MISSING @ str_join COMMA_SPACE (missing_columns (ws_row ws 1))) w)
         \<and> generate_ppt load_workbook save input_file output_file w
             = (Inl (SystemExit 1),
                print (MSG_MISSING @ str_join COMMA_SPACE (missing_columns (ws_row ws 1))) w)
         \<and> save_calls (snd (generate_ppt load_workbook save input_file output_file w))
             = save_calls w)
    \<and> (load_workbook sheet_file = Inr wb \<and> sheet wb sheet_name = Inr ws \<longrightarrow>
           load_data_from_sheet load_workbook sheet_file sheet_name
             = Inl (Exception
                      (EXC_MISSING @ str_join COMMA_SPACE (missing_columns (ws_row ws 1))))
         \<and> generate_ppt_from_sheet load_workbook save sheet_file output_path sheet_name w
             = (Inl (Exception
                       (EXC_MISSING @ str_join COMMA_SPACE (missing_columns (ws_row ws 1)))),
                w))"
proof -
  let ?in = "case input_file of None \<Rightarrow> DEFAULT_INPUT | Some f \<Rightarrow> f"
  let ?msg = "str_join COMMA_SPACE (missing_columns (ws_row ws 1))"
  have ne: "missing_columns (ws_row ws 1) \<noteq> []"
    using assms by (simp only: missing_columns_Nil_iff not_False_eq_True)
  have batch: "load_data load_workbook ?in w = (Inl (SystemExit 1), print (MSG_MISSING @ ?msg) w)
      \<and> generate_ppt load_workbook save input_file output_file w
          = (Inl (SystemExit 1), print (MSG_MISSING @ ?msg) w)
      \<and> save_calls (snd (generate_ppt load_workbook save input_file output_file w)) = save_calls w"
    if "load_workbook ?in = Inr wb \<and> active wb = ws"
  proof -
    from that ne have l: "load_data load_workbook ?in w
        = (Inl (SystemExit 1), print (MSG_MISSING @ ?msg) w)"
      using load_data_missing [of load_workbook ?in wb w] by simp
    from generate_ppt_load_fail [OF l]
    have g: "generate_ppt load_workbook save input_file output_file w
        = (Inl (SystemExit 1), print (MSG_MISSING @ ?msg) w)" .
    have "save_calls (print (MSG_MISSING @ ?msg) w) = save_calls w"
      by (simp add: print_def)
    with l g show ?thesis by simp
  qed
  have named: "load_data_from_sheet load_workbook sheet_file sheet_name
          = Inl (Exception (EXC_MISSING @ ?msg))
      \<and> generate_ppt_from_sheet load_workbook save sheet_file output_path sheet_name w
          = (Inl (Exception (EXC_MISSING @ ?msg)), w)"
    if "load_workbook sheet_file = Inr wb \<and> sheet wb sheet_name = Inr ws"
  proof -
    from that ne have l: "load_data_from_sheet load_workbook sheet_file sheet_name
          = Inl (Exception (EXC_MISSING @ ?msg))"
      using load_data_from_sheet_missing [of load_workbook sheet_file wb sheet_name ws] by simp
    from generate_ppt_from_sheet_load_fail [OF l] l show ?thesis by simp
  qed
  have cong: "\<forall>headers'. set headers' = set (ws_row ws 1)
          \<longrightarrow> missing_columns headers' = missing_columns (ws_row ws 1)"
    using missing_columns_set_cong by blast
  show ?thesis
    apply (intro conjI impI)
    subgoal by (rule ne)
    subgoal by (rule set_missing_columns)
    subgoal by (rule cong)
    subgoal premises p by (rule batch [OF p, THEN conjunct1])
    subgoal premises p by (rule batch [OF p, THEN conjunct2, THEN conjunct1])
    subgoal premises p by (rule batch [OF p, THEN conjunct2, THEN conjunct2])
    subgoal premises p by (rule named [OF p, THEN conjunct1])
    subgoal premises p by (rule named [OF p, THEN conjunct2])
    done
qed

lemma ws_row_sheet_short:
  "ws_row sheet_short 1 = [CStr COL_WORD, CStr COL_PHONETIC, CStr COL_MORPHOLOGY, CStr COL_EXAMPLE_DEF]"
  by (simp add: ws_row_def sheet_short_def sheet_of_rows_def upt_rec)

lemma missing_sheet_short:
  "missing_columns (ws_row sheet_short 1) = [COL_EXAMPLE, COL_WORD_DEF]"
  unfolding ws_row_sheet_short
  by (simp add: missing_columns_def REQUIRED_COLUMNS_def COL_WORD_def COL_PHONETIC_def
      COL_MORPHOLOGY_def COL_EXAMPLE_def COL_EXAMPLE_DEF_def COL_WORD_DEF_def)

theorem missing_columns_abort_witness:
  "\<not> CStr ` set REQUIRED_COLUMNS \<subseteq> set (ws_row sheet_short 1)
   \<and> generate_ppt (open_book (book_of_sheet sheet_short)) save_ok None None world0
       = (Inl (SystemExit 1),
          \<lparr>stdout = [MSG_MISSING @ COL_EXAMPLE @ COMMA_SPACE @ COL_WORD_DEF], save_calls = []\<rparr>)
   \<and> generate_ppt_from_sheet (open_book (book_of_sheet sheet_short)) save_ok
         DEFAULT_INPUT DEFAULT_OUTPUT [0x53] world0
       = (Inl (Exception (EXC_MISSING @ COL_EXAMPLE @ COMMA_SPACE @ COL_WORD_DEF)), world0)"
proof -
  have h: "\<not> CStr ` set REQUIRED_COLUMNS \<subseteq> set (ws_row sheet_short 1)"
    using missing_sheet_short by (simp only: missing_columns_Nil_iff [symmetric]) simp
  have o: "open_book (book_of_sheet sheet_short) (case None of None \<Rightarrow> DEFAULT_INPUT | Some f \<Rightarrow> f)
             = Inr (book_of_sheet sheet_short) \<and> active (book_of_sheet sheet_short) = sheet_short"
    by (simp add: open_book_def book_of_sheet_def)
  have n: "open_book (book_of_sheet sheet_short) DEFAULT_INPUT = Inr (book_of_sheet sheet_short)
           \<and> sheet (book_of_sheet sheet_short) [0x53] = Inr sheet_short"
    by (simp add: open_book_def book_of_sheet_def)
  note t = missing_columns_abort [OF h, of "open_book (book_of_sheet sheet_short)" None
      "book_of_sheet sheet_short" world0 save_ok None DEFAULT_INPUT "[0x53]" DEFAULT_OUTPUT]
  note d = t [THEN conjunct2, THEN conjunct2, THEN conjunct2, THEN conjunct1, rule_format, OF o]
  note e = t [THEN conjunct2, THEN conjunct2, THEN conjunct2, THEN conjunct2, rule_format, OF n]
  have g1: "generate_ppt (open_book (book_of_sheet sheet_short)) save_ok None None world0
       = (Inl (SystemExit 1),
          \<lparr>stdout = [MSG_MISSING @ COL_EXAMPLE @ COMMA_SPACE @ COL_WORD_DEF], save_calls = []\<rparr>)"
    using d [THEN conjunct2, THEN conjunct1, unfolded missing_sheet_short]
    by (simp add: print_def world0_def)
  have g2: "generate_ppt_from_sheet (open_book (book_of_sheet sheet_short)) save_ok
         DEFAULT_INPUT DEFAULT_OUTPUT [0x53] world0
       = (Inl (Exception (EXC_MISSING @ COL_EXAMPLE @ COMMA_SPACE @ COL_WORD_DEF)), world0)"
    using e [THEN conjunct2, unfolded missing_sheet_short]
    by simp
  from h g1 g2 show ?thesis by (intro conjI)
qed

section \<open>Properties of the slide layout\<close>

lemma process_text_default: "process_text s TEXT_WRAP_THRESHOLD = Inr (wrapped s)"
proof (cases "length s \<le> 40")
  case True
  then show ?thesis by (simp add: process_text_def TEXT_WRAP_THRESHOLD_def wrapped_def)
next
  case False
  then have "(40::int) < int (length s)" by simp
  from process_text_long [OF _ this] False show ?thesis
    by (simp add: TEXT_WRAP_THRESHOLD_def wrapped_def)
qed

lemma slide_for_fields:
  assumes "row (CStr COL_WORD) = Some word"
    and "row (CStr COL_PHONETIC) = Some phonetic"
    and "row (CStr COL_MORPHOLOGY) = Some morphology"
    and "row (CStr COL_EXAMPLE) = Some example"
    and "row (CStr COL_EXAMPLE_DEF) = Some example_def"
    and "row (CStr COL_WORD_DEF) = Some word_def"
  shows "slide_for row = Inr \<lparr>layout = 6, shapes =
      [region (Inches 4, Inches 1, Inches 8, Inches 2)
         TEXT_TO_FIT_SHAPE None CENTER WORD_FONT_SIZE word,
       region (Inches 4 + Inches 3, Inches 1 + Inches (14 / 10), Inches 2, Inches 1)
         TEXT_TO_FIT_SHAPE None CENTER PHONETIC_FONT_SIZE phonetic,
       region (Inches 2, Inches 1 + Inches 3, Inches 12, Inches 2)
         TEXT_TO_FIT_SHAPE (Some True) LEFT CONTENT_FONT_SIZE
         (LABEL_MORPHOLOGY @ wrapped morphology),
       region (Inches 2, Inches 1 + Inches (44 / 10), Inches 12, Inches 3)
         TEXT_TO_FIT_SHAPE (Some True) LEFT CONTENT_FONT_SIZE
         (LABEL_EXAMPLE @ wrapped example @ [0xA] @ LABEL_EXAMPLE_DEF @ wrapped example_def)]
      @ (if word_def \<noteq> [] then
           [region (Inches 2, Inches 1 + Inches 2, Inches 8, Inches (15 / 10))
              SHAPE_TO_FIT_TEXT None LEFT CONTENT_FONT_SIZE (LABEL_WORD_DEF @ wrapped word_def)]
         else [])\<rparr>"
  unfolding slide_for_def Let_def bind_exn_def row_get_def assms option.case sum.case
    add_word_textbox_def add_phonetic_textbox_def add_morphology_textbox_def
    add_example_textbox_def add_word_def_textbox_def process_text_default
  by (simp add: region_def add_textbox_def)

lemma rect_values:
  "Inches 4 + Inches 3 = Inches 7"
  "Inches 1 + Inches (14 / 10) = Inches (24 / 10)"
  "Inches 1 + Inches 3 = Inches 4"
  "Inches 1 + Inches (44 / 10) = Inches (54 / 10)"
  "Inches 1 + Inches 2 = Inches 3"
  by (simp_all add: Inches_def py_int_def)

lemma font_values:
  "WORD_FONT_SIZE = Pt 72" "PHONETIC_FONT_SIZE = Pt 32" "CONTENT_FONT_SIZE = Pt 32"
  by (simp_all add: WORD_FONT_SIZE_def PHONETIC_FONT_SIZE_def CONTENT_FONT_SIZE_def)

lemma rectangle_region [simp]: "rectangle (region r f w a s t) = r"
  by (cases r) (simp add: rectangle_def region_def)

lemma added_paragraph_region [simp]:
  "added_paragraph (region r f w a s t) = \<lparr>p_alignment = Some a, p_font_size = Some s, p_text = t\<rparr>"
  by (cases r) (simp add: added_paragraph_def region_def)

lemma generate_slide_fields:
  assumes "slide_for row = Inr sl"
  shows "generate_slide ppt row = Inr (ppt\<lparr>slides := slides ppt @ [sl]\<rparr>)"
  by (simp add: generate_slide_def bind_exn_def assms)

lemma wrapped_short: "length s \<le> 40 \<Longrightarrow> wrapped s = s"
  by (simp add: wrapped_def)

lemmas col_defs = REQUIRED_COLUMNS_def COL_WORD_def COL_PHONETIC_def COL_MORPHOLOGY_def
  COL_EXAMPLE_def COL_EXAMPLE_DEF_def COL_WORD_DEF_def

lemma record_of_six:
  "record_of [c1, c2, c3, c4, c5, c6] =
     [CStr COL_WORD \<mapsto> (if c1 \<noteq> CNone then py_str c1 else []),
      CStr COL_PHONETIC \<mapsto> (if c2 \<noteq> CNone then py_str c2 else []),
      CStr COL_MORPHOLOGY \<mapsto> (if c3 \<noteq> CNone then py_str c3 else []),
      CStr COL_EXAMPLE \<mapsto> (if c4 \<noteq> CNone then py_str c4 else []),
      CStr COL_EXAMPLE_DEF \<mapsto> (if c5 \<noteq> CNone then py_str c5 else []),
      CStr COL_WORD_DEF \<mapsto> (if c6 \<noteq> CNone then py_str c6 else [])]"
  by (simp add: record_of_def read_rows_def enumerate_eq_zip upt_rec REQUIRED_COLUMNS_def)

lemma col_distinct: "distinct REQUIRED_COLUMNS"
  by (simp add: col_defs)

lemma record_of_six_fields:
  "record_of [c1, c2, c3, c4, c5, c6] (CStr COL_WORD) = Some (if c1 \<noteq> CNone then py_str c1 else [])"
  "record_of [c1, c2, c3, c4, c5, c6] (CStr COL_PHONETIC) = Some (if c2 \<noteq> CNone then py_str c2 else [])"
  "record_of [c1, c2, c3, c4, c5, c6] (CStr COL_MORPHOLOGY) = Some (if c3 \<noteq> CNone then py_str c3 else [])"
  "record_of [c1, c2, c3, c4, c5, c6] (CStr COL_EXAMPLE) = Some (if c4 \<noteq> CNone then py_str c4 else [])"
  "record_of [c1, c2, c3, c4, c5, c6] (CStr COL_EXAMPLE_DEF) = Some (if c5 \<noteq> CNone then py_str c5 else [])"
  "record_of [c1, c2, c3, c4, c5, c6] (CStr COL_WORD_DEF) = Some (if c6 \<noteq> CNone then py_str c6 else [])"
  using col_distinct unfolding record_of_six
  by (simp_all add: REQUIRED_COLUMNS_def)

lemmas apple_fields = record_of_six_fields [of
  "CStr [0x61, 0x70, 0x70, 0x6C, 0x65]"
  "CStr [0x2F, 0x2C8, 0xE6, 0x70, 0x6C, 0x2F]"
  "CStr [0x61, 0x2D, 0x70, 0x70, 0x6C, 0x65]"
  "CStr [0x49, 0x20, 0x65, 0x61, 0x74, 0x20, 0x61, 0x6E, 0x20, 0x61, 0x70, 0x70, 0x6C, 0x65,
         0x20, 0x65, 0x76, 0x65, 0x72, 0x79, 0x20, 0x64, 0x61, 0x79, 0x2E]"
  "CStr [0x6211, 0x6BCF, 0x5929, 0x5403, 0x4E00, 0x4E2A, 0x82F9, 0x679C, 0x3002]"
  "CStr [0x82F9, 0x679C]", folded row_apple_def]

lemmas cat_fields = record_of_six_fields [of
  "CStr [0x63, 0x61, 0x74]"
  "CStr [0x2F, 0x6B, 0xE6, 0x74, 0x2F]"
  "CStr [0x63, 0x61, 0x74]"
  "CStr [0x54, 0x68, 0x65, 0x20, 0x63, 0x61, 0x74, 0x20, 0x69, 0x73, 0x20, 0x73, 0x6C, 0x65,
         0x65, 0x70, 0x69, 0x6E, 0x67, 0x2E]"
  "CStr [0x732B, 0x5728, 0x7761, 0x89C9, 0x3002]"
  CNone, folded row_cat_def]

lemmas long_fields = record_of_six_fields [of
  "CStr [0x63, 0x61, 0x74]" "CStr [0x2F, 0x6B, 0xE6, 0x74, 0x2F]" "CStr (replicate 40 0x61)"
  CNone CNone CNone, folded row_long_def]

text \<open>
  C5. For every record with the six required fields, \<open>generate_slide\<close> appends one slide
  to the deck, and that slide holds a text box at the definition's rectangle if and only if
  the word-definition field is not the empty string. The four other regions are there
  whatever the fields hold: the slide has five text boxes with the definition and four
  without.
\<close>

theorem definition_region_iff_nonempty:
  assumes "row (CStr COL_WORD) = Some word"
    and "row (CStr COL_PHONETIC) = Some phonetic"
    and "row (CStr COL_MORPHOLOGY) = Some morphology"
    and "row (CStr COL_EXAMPLE) = Some example"
    and "row (CStr COL_EXAMPLE_DEF) = Some example_def"
    and "row (CStr COL_WORD_DEF) = Some word_def"
  shows "\<exists>sl.
      slide_for row = Inr sl
    \<and> generate_slide ppt row = Inr (ppt\<lparr>slides := slides ppt @ [sl]\<rparr>)
    \<and> ((\<exists>tb \<in> set (shapes sl).
           rectangle tb = (Inches 2, Inches 3, Inches 8, Inches (15 / 10)))
         \<longleftrightarrow> word_def \<noteq> [])
    \<and> take 4 (map rectangle (shapes sl)) =
        [(Inches 4, Inches 1, Inches 8, Inches 2),
         (Inches 7, Inches (24 / 10), Inches 2, Inches 1),
         (Inches 2, Inches 4, Inches 12, Inches 2),
         (Inches 2, Inches (54 / 10), Inches 12, Inches 3)]
    \<and> length (shapes sl) = (if word_def \<noteq> [] then 5 else 4)"
proof -
  note s = slide_for_fields [OF assms]
  have g: "generate_slide ppt row
             = Inr (ppt\<lparr>slides := slides ppt @ [projr (slide_for row)]\<rparr>)"
    by (rule generate_slide_fields) (simp add: s)
  have r: "map rectangle (shapes (projr (slide_for row))) =
        [(Inches 4, Inches 1, Inches 8, Inches 2),
         (Inches 7, Inches (24 / 10), Inches 2, Inches 1),
         (Inches 2, Inches 4, Inches 12, Inches 2),
         (Inches 2, Inches (54 / 10), Inches 12, Inches 3)]
        @ (if word_def \<noteq> [] then [(Inches 2, Inches 3, Inches 8, Inches (15 / 10))] else [])"
    unfolding s sum.sel slide.simps list.map append.simps map_append
      rectangle_region rect_values
    by simp
  have m: "(\<exists>tb \<in> set (shapes (projr (slide_for row))).
              rectangle tb = (Inches 2, Inches 3, Inches 8, Inches (15 / 10)))
           \<longleftrightarrow> (Inches 2, Inches 3, Inches 8, Inches (15 / 10))
                 \<in> set (map rectangle (shapes (projr (slide_for row))))"
    unfolding set_map by (rule iffI; force)
  have i: "(\<exists>tb \<in> set (shapes (projr (slide_for row))).
              rectangle tb = (Inches 2, Inches 3, Inches 8, Inches (15 / 10)))
           \<longleftrightarrow> word_def \<noteq> []"
    unfolding m r by (simp add: Inches_def py_int_def)
  have l: "length (shapes (projr (slide_for row))) = (if word_def \<noteq> [] then 5 else 4)"
    using arg_cong [OF r, of length] by (simp split: if_splits)
  have t: "take 4 (map rectangle (shapes (projr (slide_for row)))) =
        [(Inches 4, Inches 1, Inches 8, Inches 2),
         (Inches 7, Inches (24 / 10), Inches 2, Inches 1),
         (Inches 2, Inches 4, Inches 12, Inches 2),
         (Inches 2, Inches (54 / 10), Inches 12, Inches 3)]"
    unfolding r by simp
  have e: "slide_for row = Inr (projr (slide_for row))"
    by (simp add: s)
  from e g i t l show ?thesis by blast
qed

theorem definition_region_iff_nonempty_witness:
  "(\<exists>sl. slide_for (record_of row_apple) = Inr sl \<and> length (shapes sl) = 5
         \<and> (\<exists>tb \<in> set (shapes sl).
               rectangle tb = (Inches 2, Inches 3, Inches 8, Inches (15 / 10))))
   \<and> (\<exists>sl. slide_for (record_of row_cat) = Inr sl \<and> length (shapes sl) = 4
         \<and> \<not> (\<exists>tb \<in> set (shapes sl).
               rectangle tb = (Inches 2, Inches 3, Inches 8, Inches (15 / 10))))"
proof -
  from definition_region_iff_nonempty [OF apple_fields]
  have a: "\<exists>sl. slide_for (record_of row_apple) = Inr sl \<and> length (shapes sl) = 5
         \<and> (\<exists>tb \<in> set (shapes sl).
               rectangle tb = (Inches 2, Inches 3, Inches 8, Inches (15 / 10)))"
    by (simp del: One_nat_def) blast
  from definition_region_iff_nonempty [OF cat_fields]
  have c: "\<exists>sl. slide_for (record_of row_cat) = Inr sl \<and> length (shapes sl) = 4
         \<and> \<not> (\<exists>tb \<in> set (shapes sl).
               rectangle tb = (Inches 2, Inches 3, Inches 8, Inches (15 / 10)))"
    by (simp del: One_nat_def) blast
  from a c show ?thesis by (rule conjI)
qed

text \<open>
  C7. For every record with the six required fields, the slide's text boxes lie at the
  fixed rectangles (left, top, width, height, in inches): word (4, 1, 8, 2), phonetic
  (7, 2.4, 2, 1), morphology (2, 4, 12, 2), example with translation (2, 5.4, 12, 3) and,
  when the definition is not empty, definition (2, 3, 8, 1.5). The word is set at 72 pt and
  centred, the phonetic at 32 pt and centred, the others at 32 pt and left-aligned; the
  example box holds the label of the example, the wrapped example, a newline, the label of
  the translation and the wrapped translation.
\<close>

theorem slide_regions_geometry:
  assumes "row (CStr COL_WORD) = Some word"
    and "row (CStr COL_PHONETIC) = Some phonetic"
    and "row (CStr COL_MORPHOLOGY) = Some morphology"
    and "row (CStr COL_EXAMPLE) = Some example"
    and "row (CStr COL_EXAMPLE_DEF) = Some example_def"
    and "row (CStr COL_WORD_DEF) = Some word_def"
  shows "\<exists>sl pm pe pd pw.
      slide_for row = Inr sl
    \<and> process_text morphology TEXT_WRAP_THRESHOLD = Inr pm
    \<and> process_text example TEXT_WRAP_THRESHOLD = Inr pe
    \<and> process_text example_def TEXT_WRAP_THRESHOLD = Inr pd
    \<and> process_text word_def TEXT_WRAP_THRESHOLD = Inr pw
    \<and> map rectangle (shapes sl) =
        [(Inches 4, Inches 1, Inches 8, Inches 2),
         (Inches 7, Inches (24 / 10), Inches 2, Inches 1),
         (Inches 2, Inches 4, Inches 12, Inches 2),
         (Inches 2, Inches (54 / 10), Inches 12, Inches 3)]
        @ (if word_def \<noteq> [] then [(Inches 2, Inches 3, Inches 8, Inches (15 / 10))] else [])
    \<and> map added_paragraph (shapes sl) =
        [\<lparr>p_alignment = Some CENTER, p_font_size = Some (Pt 72), p_text = word\<rparr>,
         \<lparr>p_alignment = Some CENTER, p_font_size = Some (Pt 32), p_text = phonetic\<rparr>,
         \<lparr>p_alignment = Some LEFT, p_font_size = Some (Pt 32),
          p_text = LABEL_MORPHOLOGY @ pm\<rparr>,
         \<lparr>p_alignment = Some LEFT, p_font_size = Some (Pt 32),
          p_text = LABEL_EXAMPLE @ pe @ [0xA] @ LABEL_EXAMPLE_DEF @ pd\<rparr>]
        @ (if word_def \<noteq> [] then
             [\<lparr>p_alignment = Some LEFT, p_font_size = Some (Pt 32),
               p_text = LABEL_WORD_DEF @ pw\<rparr>]
           else [])"
proof -
  note s = slide_for_fields [OF assms]
  show ?thesis
    apply (rule exI [where x = "projr (slide_for row)"])
    apply (rule exI [where x = "wrapped morphology"])
    apply (rule exI [where x = "wrapped example"])
    apply (rule exI [where x = "wrapped example_def"])
    apply (rule exI [where x = "wrapped word_def"])
    unfolding s process_text_default sum.sel slide.simps list.map append.simps
      rectangle_region added_paragraph_region rect_values font_values
    by simp
qed

theorem slide_regions_geometry_witness:
  "\<exists>sl. slide_for (record_of row_apple) = Inr sl
     \<and> map rectangle (shapes sl) =
         [(3657600, 914400, 7315200, 1828800), (6400800, 2194560, 1828800, 914400),
          (1828800, 3657600, 10972800, 1828800), (1828800, 4937760, 10972800, 2743200),
          (1828800, 2743200, 7315200, 1371600)]
     \<and> hd (map added_paragraph (shapes sl)) =
         \<lparr>p_alignment = Some CENTER, p_font_size = Some 914400,
          p_text = [0x61, 0x70, 0x70, 0x6C, 0x65]\<rparr>"
proof -
  from slide_regions_geometry [OF apple_fields]
  obtain sl where "slide_for (record_of row_apple) = Inr sl"
    and "map rectangle (shapes sl) =
        [(Inches 4, Inches 1, Inches 8, Inches 2),
         (Inches 7, Inches (24 / 10), Inches 2, Inches 1),
         (Inches 2, Inches 4, Inches 12, Inches 2),
         (Inches 2, Inches (54 / 10), Inches 12, Inches 3),
         (Inches 2, Inches 3, Inches 8, Inches (15 / 10))]"
    and "hd (map added_paragraph (shapes sl)) =
         \<lparr>p_alignment = Some CENTER, p_font_size = Some (Pt 72),
          p_text = [0x61, 0x70, 0x70, 0x6C, 0x65]\<rparr>"
    by (simp del: One_nat_def) force
  then show ?thesis
    by (simp add: Inches_def Pt_def py_int_def)
qed

text \<open>
  C9. The wrapper is applied to the field value alone and the label is put in front of its
  result: the morphology, example, translation and definition texts are the label followed
  by \<open>process_text\<close> of the field. So a field of at most 40 characters is set unbroken
  after its label, and the line is longer than the field by the label's five characters.
\<close>

theorem labels_outside_wrap:
  assumes "row (CStr COL_WORD) = Some word"
    and "row (CStr COL_PHONETIC) = Some phonetic"
    and "row (CStr COL_MORPHOLOGY) = Some morphology"
    and "row (CStr COL_EXAMPLE) = Some example"
    and "row (CStr COL_EXAMPLE_DEF) = Some example_def"
    and "row (CStr COL_WORD_DEF) = Some word_def"
  shows "\<exists>sl pm pe pd pw.
      slide_for row = Inr sl
    \<and> process_text morphology TEXT_WRAP_THRESHOLD = Inr pm
    \<and> process_text example TEXT_WRAP_THRESHOLD = Inr pe
    \<and> process_text example_def TEXT_WRAP_THRESHOLD = Inr pd
    \<and> process_text word_def TEXT_WRAP_THRESHOLD = Inr pw
    \<and> p_text (added_paragraph (shapes sl ! 2)) = LABEL_MORPHOLOGY @ pm
    \<and> p_text (added_paragraph (shapes sl ! 3))
        = LABEL_EXAMPLE @ pe @ [0xA] @ LABEL_EXAMPLE_DEF @ pd
    \<and> (word_def \<noteq> [] \<longrightarrow>
         p_text (added_paragraph (shapes sl ! 4)) = LABEL_WORD_DEF @ pw)
    \<and> (int (length morphology) \<le> TEXT_WRAP_THRESHOLD \<longrightarrow>
         p_text (added_paragraph (shapes sl ! 2)) = LABEL_MORPHOLOGY @ morphology
         \<and> length (p_text (added_paragraph (shapes sl ! 2))) = length morphology + 5)"
proof -
  note s = slide_for_fields [OF assms]
  show ?thesis
    apply (rule exI [where x = "projr (slide_for row)"])
    apply (rule exI [where x = "wrapped morphology"])
    apply (rule exI [where x = "wrapped example"])
    apply (rule exI [where x = "wrapped example_def"])
    apply (rule exI [where x = "wrapped word_def"])
    unfolding s process_text_default sum.sel slide.simps
    by (simp add: wrapped_short TEXT_WRAP_THRESHOLD_def LABEL_MORPHOLOGY_def)
qed

theorem labels_outside_wrap_witness:
  "\<exists>sl. slide_for (record_of row_long) = Inr sl
     \<and> p_text (added_paragraph (shapes sl ! 2)) = LABEL_MORPHOLOGY @ replicate 40 0x61
     \<and> length (p_text (added_paragraph (shapes sl ! 2))) = 45"
proof -
  from labels_outside_wrap [OF long_fields]
  obtain sl where "slide_for (record_of row_long) = Inr sl"
    and "int (length (replicate 40 (0x61::nat))) \<le> TEXT_WRAP_THRESHOLD \<longrightarrow>
         p_text (added_paragraph (shapes sl ! 2)) = LABEL_MORPHOLOGY @ replicate 40 0x61
         \<and> length (p_text (added_paragraph (shapes sl ! 2))) = length (replicate 40 (0x61::nat)) + 5"
    by (simp del: One_nat_def length_replicate) blast
  then show ?thesis
    by (simp add: TEXT_WRAP_THRESHOLD_def LABEL_MORPHOLOGY_def)
qed

section \<open>Properties of the deck builder\<close>

lemma length_ws_row [simp]: "length (ws_row ws r) = max_column ws"
  by (simp add: ws_row_def)

lemma length_iter_rows: "length (iter_rows ws 2) = max_row ws - 1"
  unfolding iter_rows_def by (simp del: upt_Suc)

lemma nth_iter_rows: "N < max_row ws - 1 \<Longrightarrow> iter_rows ws 2 ! N = ws_row ws (N + 2)"
  unfolding iter_rows_def by (simp del: upt_Suc add: add.commute)

lemma set_iter_rows_length: "row \<in> set (iter_rows ws k) \<Longrightarrow> length row = max_column ws"
  unfolding iter_rows_def by (auto simp del: upt_Suc)

lemma zip_record_required:
  assumes "CStr ` set REQUIRED_COLUMNS \<subseteq> set headers" "length headers \<le> length row"
    "c \<in> set REQUIRED_COLUMNS"
  shows "\<exists>v. zip_record headers row (CStr c) = Some v"
proof -
  from assms(1,3) have "CStr c \<in> set headers" by blast
  then obtain i where i: "i < length headers" "headers ! i = CStr c"
    by (auto simp: in_set_conv_nth)
  with assms(2) have "i < length row" by simp
  from zip_record_key [OF i(1) this] i(2) show ?thesis by auto
qed

lemma slide_for_required:
  assumes "\<forall>c \<in> set REQUIRED_COLUMNS. \<exists>v. row (CStr c) = Some v"
  shows "\<exists>sl. slide_for row = Inr sl"
proof -
  from assms obtain w p m e d wd where
    "row (CStr COL_WORD) = Some w" "row (CStr COL_PHONETIC) = Some p"
    "row (CStr COL_MORPHOLOGY) = Some m" "row (CStr COL_EXAMPLE) = Some e"
    "row (CStr COL_EXAMPLE_DEF) = Some d" "row (CStr COL_WORD_DEF) = Some wd"
    unfolding REQUIRED_COLUMNS_def by (simp only: list.set ball_simps) blast
  from slide_for_fields [OF this] show ?thesis by blast
qed

lemma slides_loop_ok:
  assumes "\<forall>row \<in> set data. \<exists>sl. slide_for row = Inr sl"
  shows "slides_loop data ppt
           = Inr (ppt\<lparr>slides := slides ppt @ map (\<lambda>row. projr (slide_for row)) data\<rparr>)"
  using assms
proof (induction data arbitrary: ppt)
  case Nil
  show ?case by simp
next
  case (Cons row data)
  from Cons.prems obtain sl where sl: "slide_for row = Inr sl" by auto
  have g: "generate_slide ppt row = Inr (ppt\<lparr>slides := slides ppt @ [sl]\<rparr>)"
    by (rule generate_slide_fields [OF sl])
  from Cons.prems have "\<forall>row \<in> set data. \<exists>sl. slide_for row = Inr sl" by simp
  from Cons.IH [OF this] show ?case by (simp add: g sl)
qed

lemma slides_loop_progress_ok:
  assumes "\<forall>row \<in> set data. \<exists>sl. slide_for row = Inr sl"
  shows "\<exists>lines. slides_loop_progress n (enumerate k data) ppt w
           = (Inr (ppt\<lparr>slides := slides ppt @ map (\<lambda>row. projr (slide_for row)) data\<rparr>),
              w\<lparr>stdout := stdout w @ lines\<rparr>)"
  using assms
proof (induction data arbitrary: ppt k w)
  case Nil
  show ?case by (rule exI [where x = "[]"]) simp
next
  case (Cons row data)
  from Cons.prems obtain sl where sl: "slide_for row = Inr sl" by auto
  have g: "\<And>ppt. generate_slide ppt row = Inr (ppt\<lparr>slides := slides ppt @ [sl]\<rparr>)"
    by (rule generate_slide_fields [OF sl])
  from Cons.prems have r: "\<forall>row \<in> set data. \<exists>sl. slide_for row = Inr sl" by simp
  let ?w = "if (k + 1) mod 10 = 0 \<or> k + 1 = n then print (MSG_PROGRESS (k + 1) n) w else w"
  from Cons.IH [OF r, of "Suc k" "ppt\<lparr>slides := slides ppt @ [sl]\<rparr>" ?w]
  obtain lines where l: "slides_loop_progress n (enumerate (Suc k) data)
      (ppt\<lparr>slides := slides ppt @ [sl]\<rparr>) ?w
      = (Inr (ppt\<lparr>slides := slides ppt @ [sl]\<rparr>
              \<lparr>slides := slides (ppt\<lparr>slides := slides ppt @ [sl]\<rparr>)
                  @ map (\<lambda>row. projr (slide_for row)) data\<rparr>),
         ?w\<lparr>stdout := stdout ?w @ lines\<rparr>)"
    by blast
  have "\<exists>ls. ?w\<lparr>stdout := stdout ?w @ lines\<rparr> = w\<lparr>stdout := stdout w @ ls\<rparr>"
    by (cases "(k + 1) mod 10 = 0 \<or> k + 1 = n") (auto simp: print_def)
  then obtain ls where ls: "?w\<lparr>stdout := stdout ?w @ lines\<rparr> = w\<lparr>stdout := stdout w @ ls\<rparr>" ..
  have "slides_loop_progress n (enumerate k (row # data)) ppt w
          = slides_loop_progress n (enumerate (Suc k) data)
              (ppt\<lparr>slides := slides ppt @ [sl]\<rparr>) ?w"
    by (simp add: g Let_def)
  also note l
  finally have e: "slides_loop_progress n (enumerate k (row # data)) ppt w
      = (Inr (ppt\<lparr>slides := slides ppt @ [sl]\<rparr>
              \<lparr>slides := slides (ppt\<lparr>slides := slides ppt @ [sl]\<rparr>)
                  @ map (\<lambda>row. projr (slide_for row)) data\<rparr>),
         w\<lparr>stdout := stdout w @ ls\<rparr>)"
    unfolding ls .
  show ?case
    by (rule exI [where x = ls]) (simp only: e, simp add: sl)
qed

lemma length_sheet_records: "length (sheet_records ws) = max_row ws - 1"
  by (simp add: sheet_records_def read_rows_def length_iter_rows)

lemma nth_sheet_records:
  "N < max_row ws - 1 \<Longrightarrow> sheet_records ws ! N = zip_record (ws_row ws 1) (ws_row ws (N + 2))"
  by (simp add: sheet_records_def read_rows_eq length_iter_rows nth_iter_rows)

lemma sheet_records_slides:
  assumes "CStr ` set REQUIRED_COLUMNS \<subseteq> set (ws_row ws 1)"
  shows "\<forall>row \<in> set (sheet_records ws). \<exists>sl. slide_for row = Inr sl"
proof
  fix r assume "r \<in> set (sheet_records ws)"
  then obtain row where row: "row \<in> set (iter_rows ws 2)" "r = zip_record (ws_row ws 1) row"
    by (auto simp: sheet_records_def read_rows_eq)
  from set_iter_rows_length [OF row(1)] have "length (ws_row ws 1) \<le> length row" by simp
  from zip_record_required [OF assms this]
  have "\<forall>c \<in> set REQUIRED_COLUMNS. \<exists>v. r (CStr c) = Some v"
    unfolding row(2) by blast
  then show "\<exists>sl. slide_for r = Inr sl" by (rule slide_for_required)
qed

lemma sheet_deck_ok:
  assumes "CStr ` set REQUIRED_COLUMNS \<subseteq> set (ws_row ws 1)"
  shows "\<exists>ppt. sheet_deck ws = Inr ppt
           \<and> slide_width ppt = SLIDE_WIDTH \<and> slide_height ppt = SLIDE_HEIGHT
           \<and> length (slides ppt) = max_row ws - 1
           \<and> (\<forall>N < max_row ws - 1. slide_for (sheet_records ws ! N) = Inr (slides ppt ! N))"
proof -
  note ok = sheet_records_slides [OF assms]
  let ?ppt = "create_presentation
                \<lparr>slides := map (\<lambda>row. projr (slide_for row)) (sheet_records ws)\<rparr>"
  have d: "sheet_deck ws = Inr ?ppt"
    unfolding sheet_deck_def slides_loop_ok [OF ok] by (simp add: create_presentation_def)
  have n: "\<forall>N < max_row ws - 1. slide_for (sheet_records ws ! N) = Inr (slides ?ppt ! N)"
  proof (intro allI impI)
    fix N assume N: "N < max_row ws - 1"
    then have "sheet_records ws ! N \<in> set (sheet_records ws)"
      by (simp add: length_sheet_records)
    with ok obtain sl where "slide_for (sheet_records ws ! N) = Inr sl" by blast
    with N show "slide_for (sheet_records ws ! N) = Inr (slides ?ppt ! N)"
      by (simp add: length_sheet_records)
  qed
  have "slide_width ?ppt = SLIDE_WIDTH \<and> slide_height ?ppt = SLIDE_HEIGHT
        \<and> length (slides ?ppt) = max_row ws - 1"
    by (simp add: create_presentation_def length_sheet_records)
  with d n show ?thesis by blast
qed

lemma load_data_ok:
  assumes "load_workbook f = Inr wb" "CStr ` set REQUIRED_COLUMNS \<subseteq> set (ws_row (active wb) 1)"
  shows "load_data load_workbook f w = (Inr (sheet_records (active wb)), w)"
proof -
  from assms(2) have "missing_columns (ws_row (active wb) 1) = []"
    by (simp only: missing_columns_Nil_iff)
  then show ?thesis
    unfolding load_data_def Let_def sheet_records_def using assms(1)
    by (simp only: sum.case simp_thms if_False)
qed

lemma load_data_from_sheet_ok:
  assumes "load_workbook f = Inr wb" "sheet wb sheet_name = Inr ws"
    "CStr ` set REQUIRED_COLUMNS \<subseteq> set (ws_row ws 1)"
  shows "load_data_from_sheet load_workbook f sheet_name = Inr (sheet_records ws)"
proof -
  from assms(3) have "missing_columns (ws_row ws 1) = []"
    by (simp only: missing_columns_Nil_iff)
  then show ?thesis
    unfolding load_data_from_sheet_def Let_def sheet_records_def using assms(1,2)
    by (simp only: sum.case simp_thms if_False)
qed

lemma generate_ppt_from_sheet_ok:
  assumes "load_workbook f = Inr wb" "sheet wb sheet_name = Inr ws"
    "CStr ` set REQUIRED_COLUMNS \<subseteq> set (ws_row ws 1)"
    "sheet_deck ws = Inr ppt"
  shows "generate_ppt_from_sheet load_workbook save f output_file sheet_name w
           = (case save output_file ppt of
                None \<Rightarrow> Inr (int (max_row ws - 1))
              | Some e \<Rightarrow> Inl (Exception (EXC_SAVE @ e)),
              w\<lparr>save_calls := save_calls w @ [(output_file, ppt)]\<rparr>)"
  unfolding generate_ppt_from_sheet_def load_data_from_sheet_ok [of load_workbook f wb sheet_name ws, OF assms(1-3)] Let_def
    sum.case assms(4) [unfolded sheet_deck_def] length_sheet_records
  by (simp split: option.split)

lemma generate_ppt_ok:
  assumes "load_workbook (case input_file of None \<Rightarrow> DEFAULT_INPUT | Some f \<Rightarrow> f) = Inr wb"
    "CStr ` set REQUIRED_COLUMNS \<subseteq> set (ws_row (active wb) 1)"
    "sheet_deck (active wb) = Inr ppt"
  shows "\<exists>lines. generate_ppt load_workbook save input_file output_file w
           = (case save (case output_file of None \<Rightarrow> DEFAULT_OUTPUT | Some f \<Rightarrow> f) ppt of
                None \<Rightarrow>
                  (Inr (int (max_row (active wb) - 1)),
                   \<lparr>stdout = stdout w @ [MSG_START (max_row (active wb) - 1)] @ lines
                        @ [MSG_SUCCESS (case output_file of None \<Rightarrow> DEFAULT_OUTPUT | Some f \<Rightarrow> f),
                           MSG_COUNT (max_row (active wb) - 1)],
                    save_calls = save_calls w
                        @ [(case output_file of None \<Rightarrow> DEFAULT_OUTPUT | Some f \<Rightarrow> f, ppt)]\<rparr>)
              | Some e \<Rightarrow>
                  (Inr 0,
                   \<lparr>stdout = stdout w @ [MSG_START (max_row (active wb) - 1)] @ lines
                        @ [MSG_SAVE_ERROR @ e],
                    save_calls = save_calls w
                        @ [(case output_file of None \<Rightarrow> DEFAULT_OUTPUT | Some f \<Rightarrow> f, ppt)]\<rparr>))"
proof -
  let ?ws = "active wb"
  let ?w1 = "print (MSG_START (max_row ?ws - 1)) w"
  note ok = sheet_records_slides [OF assms(2)]
  from assms(3) slides_loop_ok [OF ok, of create_presentation]
  have p: "create_presentation\<lparr>slides := slides create_presentation
             @ map (\<lambda>row. projr (slide_for row)) (sheet_records ?ws)\<rparr> = ppt"
    by (simp add: sheet_deck_def)
  from slides_loop_progress_ok [OF ok, of "max_row ?ws - 1" 0 create_presentation ?w1]
  obtain lines where l: "slides_loop_progress (max_row ?ws - 1) (enumerate 0 (sheet_records ?ws))
      create_presentation ?w1 = (Inr ppt, ?w1\<lparr>stdout := stdout ?w1 @ lines\<rparr>)"
    unfolding p by blast
  have "generate_ppt load_workbook save input_file output_file w
           = (case save (case output_file of None \<Rightarrow> DEFAULT_OUTPUT | Some f \<Rightarrow> f) ppt of
                None \<Rightarrow>
                  (Inr (int (max_row (active wb) - 1)),
                   \<lparr>stdout = stdout w @ [MSG_START (max_row (active wb) - 1)] @ lines
                        @ [MSG_SUCCESS (case output_file of None \<Rightarrow> DEFAULT_OUTPUT | Some f \<Rightarrow> f),
                           MSG_COUNT (max_row (active wb) - 1)],
                    save_calls = save_calls w
                        @ [(case output_file of None \<Rightarrow> DEFAULT_OUTPUT | Some f \<Rightarrow> f, ppt)]\<rparr>)
              | Some e \<Rightarrow>
                  (Inr 0,
                   \<lparr>stdout = stdout w @ [MSG_START (max_row (active wb) - 1)] @ lines
                        @ [MSG_SAVE_ERROR @ e],
                    save_calls = save_calls w
                        @ [(case output_file of None \<Rightarrow> DEFAULT_OUTPUT | Some f \<Rightarrow> f, ppt)]\<rparr>))"
    unfolding generate_ppt_def Let_def load_data_ok [of load_workbook "case input_file of None \<Rightarrow> DEFAULT_INPUT | Some f \<Rightarrow> f" wb,
        OF assms(1,2)] prod.case sum.case
      length_sheet_records l
    by (simp add: print_def split: option.split)
  then show ?thesis ..
qed

lemma sheet_words_rows:
  "ws_row sheet_words 1 = map CStr REQUIRED_COLUMNS"
  "ws_row sheet_words 2 = row_apple"
  "ws_row sheet_words 3 = row_cat"
  "max_row sheet_words = 3"
  "ws_row sheet_words (0 + 2) = row_apple"
  "ws_row sheet_words (1 + 2) = row_cat"
  by (simp_all add: ws_row_def sheet_words_def sheet_of_rows_def upt_rec REQUIRED_COLUMNS_def
      row_apple_def row_cat_def nth_Cons')

lemma sheet_empty_rows:
  "ws_row sheet_empty 1 = map CStr REQUIRED_COLUMNS"
  "max_row sheet_empty = 1"
  by (simp_all add: ws_row_def sheet_empty_def sheet_of_rows_def upt_rec REQUIRED_COLUMNS_def
      nth_Cons')

lemma record_of_zip: "record_of row = zip_record (map CStr REQUIRED_COLUMNS) row"
  by (simp add: record_of_def read_rows_eq)

lemma open_book_facts:
  "open_book (book_of_sheet ws) f = Inr (book_of_sheet ws)"
  "active (book_of_sheet ws) = ws"
  "sheet (book_of_sheet ws) name = Inr ws"
  by (simp_all add: open_book_def book_of_sheet_def)

lemma generate_ppt_fst:
  assumes "load_workbook (case input_file of None \<Rightarrow> DEFAULT_INPUT | Some f \<Rightarrow> f) = Inr wb"
    "CStr ` set REQUIRED_COLUMNS \<subseteq> set (ws_row (active wb) 1)"
    "sheet_deck (active wb) = Inr ppt"
  shows "fst (generate_ppt load_workbook save input_file output_file w)
           = Inr (case save (case output_file of None \<Rightarrow> DEFAULT_OUTPUT | Some f \<Rightarrow> f) ppt of None \<Rightarrow> int (max_row (active wb) - 1) | Some e \<Rightarrow> 0)"
  using generate_ppt_ok [of load_workbook input_file wb ppt save output_file w, OF assms]
  by (auto split: option.splits)

lemma generate_ppt_save_error_line:
  assumes "load_workbook (case input_file of None \<Rightarrow> DEFAULT_INPUT | Some f \<Rightarrow> f) = Inr wb"
    "CStr ` set REQUIRED_COLUMNS \<subseteq> set (ws_row (active wb) 1)"
    "sheet_deck (active wb) = Inr ppt"
    "save (case output_file of None \<Rightarrow> DEFAULT_OUTPUT | Some f \<Rightarrow> f) ppt = Some e"
  shows "last (stdout (snd (generate_ppt load_workbook save input_file output_file w)))
           = MSG_SAVE_ERROR @ e"
  using generate_ppt_ok [of load_workbook input_file wb ppt save output_file w, OF assms(1-3)]
    assms(4)
  by auto

lemma sheet_words_required: "CStr ` set REQUIRED_COLUMNS \<subseteq> set (ws_row sheet_words 1)"
  unfolding sheet_words_rows by simp

lemma sheet_empty_required: "CStr ` set REQUIRED_COLUMNS \<subseteq> set (ws_row sheet_empty 1)"
  unfolding sheet_empty_rows by simp

text \<open>
  C1. For every worksheet whose header row holds the six required columns, the slide loop
  succeeds and builds a deck with exactly one slide per data row (the rows after the
  header, \<open>max_row - 1\<close> of them): record N is the record of worksheet row N + 2, and
  slide N of the deck is the slide built from record N. That deck is the one handed to
  \<open>ppt.save\<close>, by \<open>generate_ppt\<close> and by \<open>generate_ppt_from_sheet\<close> alike.
\<close>

theorem deck_one_slide_per_row:
  assumes "CStr ` set REQUIRED_COLUMNS \<subseteq> set (ws_row ws 1)"
  shows "\<exists>ppt.
      sheet_deck ws = Inr ppt
    \<and> length (sheet_records ws) = max_row ws - 1
    \<and> length (slides ppt) = max_row ws - 1
    \<and> (\<forall>N < max_row ws - 1.
          sheet_records ws ! N = zip_record (ws_row ws 1) (ws_row ws (N + 2))
          \<and> slide_for (sheet_records ws ! N) = Inr (slides ppt ! N))
    \<and> (load_workbook (case input_file of None \<Rightarrow> DEFAULT_INPUT | Some f \<Rightarrow> f) = Inr wb \<and> active wb = ws \<longrightarrow>
          save_calls (snd (generate_ppt load_workbook save input_file output_file w))
            = save_calls w @ [((case output_file of None \<Rightarrow> DEFAULT_OUTPUT | Some f \<Rightarrow> f), ppt)])
    \<and> (load_workbook sheet_file = Inr wb \<and> sheet wb sheet_name = Inr ws \<longrightarrow>
          save_calls (snd (generate_ppt_from_sheet load_workbook save sheet_file output_path
                             sheet_name w))
            = save_calls w @ [(output_path, ppt)])"
proof -
  from sheet_deck_ok [OF assms] obtain ppt where
    d: "sheet_deck ws = Inr ppt" and
    l: "length (slides ppt) = max_row ws - 1" and
    n: "\<forall>N < max_row ws - 1. slide_for (sheet_records ws ! N) = Inr (slides ppt ! N)"
    by blast
  have b: "save_calls (snd (generate_ppt load_workbook save input_file output_file w))
            = save_calls w @ [((case output_file of None \<Rightarrow> DEFAULT_OUTPUT | Some f \<Rightarrow> f), ppt)]"
    if "load_workbook (case input_file of None \<Rightarrow> DEFAULT_INPUT | Some f \<Rightarrow> f) = Inr wb \<and> active wb = ws"
  proof -
    from that assms d
    have "load_workbook (case input_file of None \<Rightarrow> DEFAULT_INPUT | Some f \<Rightarrow> f) = Inr wb"
      "CStr ` set REQUIRED_COLUMNS \<subseteq> set (ws_row (active wb) 1)"
      "sheet_deck (active wb) = Inr ppt"
      by simp_all
    from generate_ppt_ok [of load_workbook input_file wb ppt save output_file w, OF this]
    show ?thesis
      by (auto split: option.splits)
  qed
  have s: "save_calls (snd (generate_ppt_from_sheet load_workbook save sheet_file output_path
                             sheet_name w))
            = save_calls w @ [(output_path, ppt)]"
    if "load_workbook sheet_file = Inr wb \<and> sheet wb sheet_name = Inr ws"
  proof -
    from that have "load_workbook sheet_file = Inr wb" "sheet wb sheet_name = Inr ws"
      by simp_all
    from generate_ppt_from_sheet_ok [of load_workbook sheet_file wb sheet_name ws ppt save
        output_path w, OF this assms d]
    show ?thesis by simp
  qed
  have r: "\<forall>N < max_row ws - 1.
          sheet_records ws ! N = zip_record (ws_row ws 1) (ws_row ws (N + 2))
          \<and> slide_for (sheet_records ws ! N) = Inr (slides ppt ! N)"
    using n nth_sheet_records by blast
  show ?thesis
    apply (rule exI [where x = ppt])
    apply (intro conjI impI)
    subgoal by (rule d)
    subgoal by (rule length_sheet_records)
    subgoal by (rule l)
    subgoal by (rule r)
    subgoal premises p by (rule b [OF p])
    subgoal premises p by (rule s [OF p])
    done
qed

theorem deck_one_slide_per_row_witness:
  "\<exists>ppt. save_calls (snd (generate_ppt (open_book (book_of_sheet sheet_words)) save_ok
                             None None world0)) = [(DEFAULT_OUTPUT, ppt)]
      \<and> length (slides ppt) = 2
      \<and> slide_for (record_of row_apple) = Inr (slides ppt ! 0)
      \<and> slide_for (record_of row_cat) = Inr (slides ppt ! 1)"
proof -
  have h: "CStr ` set REQUIRED_COLUMNS \<subseteq> set (ws_row sheet_words 1)"
    unfolding sheet_words_rows by simp
  have o: "open_book (book_of_sheet sheet_words)
             (case None of None \<Rightarrow> DEFAULT_INPUT | Some f \<Rightarrow> f) = Inr (book_of_sheet sheet_words)
           \<and> active (book_of_sheet sheet_words) = sheet_words"
    by (simp add: open_book_facts)
  from deck_one_slide_per_row [OF h, of "open_book (book_of_sheet sheet_words)" None
      "book_of_sheet sheet_words" save_ok None world0]
  obtain ppt where
    l: "length (slides ppt) = max_row sheet_words - 1" and
    n: "\<forall>N < max_row sheet_words - 1.
          sheet_records sheet_words ! N
            = zip_record (ws_row sheet_words 1) (ws_row sheet_words (N + 2))
          \<and> slide_for (sheet_records sheet_words ! N) = Inr (slides ppt ! N)" and
    c: "open_book (book_of_sheet sheet_words)
             (case None of None \<Rightarrow> DEFAULT_INPUT | Some f \<Rightarrow> f) = Inr (book_of_sheet sheet_words)
           \<and> active (book_of_sheet sheet_words) = sheet_words \<longrightarrow>
        save_calls (snd (generate_ppt (open_book (book_of_sheet sheet_words)) save_ok
                             None None world0))
          = save_calls world0 @ [(case None of None \<Rightarrow> DEFAULT_OUTPUT | Some f \<Rightarrow> f, ppt)]"
    by blast
  have b: "(0::nat) < max_row sheet_words - 1" "(1::nat) < max_row sheet_words - 1"
    unfolding sheet_words_rows by simp_all
  from n [rule_format, OF b(1), unfolded sheet_words_rows]
  have a0: "slide_for (record_of row_apple) = Inr (slides ppt ! 0)"
    unfolding record_of_zip by (elim conjE) (simp only:)
  from n [rule_format, OF b(2), unfolded sheet_words_rows]
  have a1: "slide_for (record_of row_cat) = Inr (slides ppt ! 1)"
    unfolding record_of_zip by (elim conjE) (simp only:)
  from c [rule_format, OF o] have s: "save_calls (snd (generate_ppt
      (open_book (book_of_sheet sheet_words)) save_ok None None world0)) = [(DEFAULT_OUTPUT, ppt)]"
    by (simp add: world0_def)
  from l have "length (slides ppt) = 2" unfolding sheet_words_rows by simp
  with s a0 a1 show ?thesis by blast
qed

text \<open>
  C6 (as amended). For a worksheet with the six required columns, both entry points
  return the number of slides built when the save succeeds. When the save fails,
  \<open>generate_ppt_from_sheet\<close> fails with an exception whose message carries the text of
  the save error, whereas \<open>generate_ppt\<close> catches the error, prints it and returns 0.
\<close>

theorem save_outcome_by_entry_point:
  assumes "CStr ` set REQUIRED_COLUMNS \<subseteq> set (ws_row ws 1)"
  shows "\<exists>ppt.
      sheet_deck ws = Inr ppt
    \<and> length (slides ppt) = max_row ws - 1
    \<and> (load_workbook (case input_file of None \<Rightarrow> DEFAULT_INPUT | Some f \<Rightarrow> f) = Inr wb \<and> active wb = ws \<longrightarrow>
          (save (case output_file of None \<Rightarrow> DEFAULT_OUTPUT | Some f \<Rightarrow> f) ppt = None \<longrightarrow>
             fst (generate_ppt load_workbook save input_file output_file w)
               = Inr (int (length (slides ppt))))
        \<and> (\<forall>e. save (case output_file of None \<Rightarrow> DEFAULT_OUTPUT | Some f \<Rightarrow> f) ppt = Some e \<longrightarrow>
             fst (generate_ppt load_workbook save input_file output_file w) = Inr 0
             \<and> last (stdout (snd (generate_ppt load_workbook save input_file output_file w)))
                 = MSG_SAVE_ERROR @ e))
    \<and> (load_workbook sheet_file = Inr wb \<and> sheet wb sheet_name = Inr ws \<longrightarrow>
          (save output_path ppt = None \<longrightarrow>
             fst (generate_ppt_from_sheet load_workbook save sheet_file output_path sheet_name w)
               = Inr (int (length (slides ppt))))
        \<and> (\<forall>e. save output_path ppt = Some e \<longrightarrow>
             fst (generate_ppt_from_sheet load_workbook save sheet_file output_path sheet_name w)
               = Inl (Exception (EXC_SAVE @ e))))"
proof -
  from sheet_deck_ok [OF assms] obtain ppt where
    d: "sheet_deck ws = Inr ppt" and
    l: "length (slides ppt) = max_row ws - 1"
    by blast
  have b: "(save (case output_file of None \<Rightarrow> DEFAULT_OUTPUT | Some f \<Rightarrow> f) ppt = None \<longrightarrow>
             fst (generate_ppt load_workbook save input_file output_file w)
               = Inr (int (length (slides ppt))))
        \<and> (\<forall>e. save (case output_file of None \<Rightarrow> DEFAULT_OUTPUT | Some f \<Rightarrow> f) ppt = Some e \<longrightarrow>
             fst (generate_ppt load_workbook save input_file output_file w) = Inr 0
             \<and> last (stdout (snd (generate_ppt load_workbook save input_file output_file w)))
                 = MSG_SAVE_ERROR @ e)"
    if "load_workbook (case input_file of None \<Rightarrow> DEFAULT_INPUT | Some f \<Rightarrow> f) = Inr wb \<and> active wb = ws"
  proof -
    from that assms d
    have p: "load_workbook (case input_file of None \<Rightarrow> DEFAULT_INPUT | Some f \<Rightarrow> f) = Inr wb"
      "CStr ` set REQUIRED_COLUMNS \<subseteq> set (ws_row (active wb) 1)"
      "sheet_deck (active wb) = Inr ppt"
      by simp_all
    from that have a: "max_row (active wb) - 1 = length (slides ppt)"
      by (simp add: l)
    note g = generate_ppt_fst [of load_workbook input_file wb ppt save output_file w, OF p]
    note e = generate_ppt_save_error_line [of load_workbook input_file wb ppt save output_file _ w,
        OF p]
    show ?thesis
      using g e a by simp
  qed
  have s: "(save output_path ppt = None \<longrightarrow>
             fst (generate_ppt_from_sheet load_workbook save sheet_file output_path sheet_name w)
               = Inr (int (length (slides ppt))))
        \<and> (\<forall>e. save output_path ppt = Some e \<longrightarrow>
             fst (generate_ppt_from_sheet load_workbook save sheet_file output_path sheet_name w)
               = Inl (Exception (EXC_SAVE @ e)))"
    if "load_workbook sheet_file = Inr wb \<and> sheet wb sheet_name = Inr ws"
  proof -
    from that have "load_workbook sheet_file = Inr wb" "sheet wb sheet_name = Inr ws"
      by simp_all
    from generate_ppt_from_sheet_ok [of load_workbook sheet_file wb sheet_name ws ppt save
        output_path w, OF this assms d]
    show ?thesis by (simp add: l)
  qed
  show ?thesis
    apply (rule exI [where x = ppt])
    apply (intro conjI)
    subgoal by (rule d)
    subgoal by (rule l)
    subgoal by (rule impI) (rule b)
    subgoal by (rule impI) (rule s)
    done
qed

theorem save_outcome_by_entry_point_witness:
  "fst (generate_ppt (open_book (book_of_sheet sheet_words)) save_ok None None world0) = Inr 2
   \<and> fst (generate_ppt_from_sheet (open_book (book_of_sheet sheet_words)) save_denied
            DEFAULT_INPUT DEFAULT_OUTPUT [0x53] world0)
       = Inl (Exception (EXC_SAVE @ [0x64, 0x65, 0x6E, 0x69, 0x65, 0x64]))"
proof -
  have m: "max_row sheet_words - 1 = 2"
    unfolding sheet_words_rows by simp
  from save_outcome_by_entry_point [OF sheet_words_required,
      of "open_book (book_of_sheet sheet_words)" None "book_of_sheet sheet_words" save_ok None
         world0 DEFAULT_INPUT "[0x53]" DEFAULT_OUTPUT]
  have "\<exists>ppt :: presentation. length (slides ppt) = max_row sheet_words - 1
          \<and> fst (generate_ppt (open_book (book_of_sheet sheet_words)) save_ok None None world0)
              = Inr (int (length (slides ppt)))"
    by (simp add: open_book_facts save_ok_def) blast
  then have g: "fst (generate_ppt (open_book (book_of_sheet sheet_words)) save_ok None None
                       world0) = Inr 2"
    unfolding m by auto
  from save_outcome_by_entry_point [OF sheet_words_required,
      of "open_book (book_of_sheet sheet_words)" None "book_of_sheet sheet_words" save_denied
         None world0 DEFAULT_INPUT "[0x53]" DEFAULT_OUTPUT]
  have f: "fst (generate_ppt_from_sheet (open_book (book_of_sheet sheet_words)) save_denied
            DEFAULT_INPUT DEFAULT_OUTPUT [0x53] world0)
       = Inl (Exception (EXC_SAVE @ [0x64, 0x65, 0x6E, 0x69, 0x65, 0x64]))"
    by (simp add: open_book_facts save_denied_def) blast
  from g f show ?thesis by (rule conjI)
qed

text \<open>
  The claim as first stated: on the sheet with two data rows and a save that fails,
  \<open>generate_ppt\<close> raises nothing and returns 0, not the count of the two slides built.
\<close>

theorem generate_ppt_swallows_save_error_counterexample:
  "fst (generate_ppt (open_book (book_of_sheet sheet_words)) save_denied None None world0)
     = Inr 0
   \<and> max_row sheet_words - 1 = 2"
proof -
  from sheet_deck_ok [OF sheet_words_required] obtain ppt where
    d: "sheet_deck sheet_words = Inr ppt" by blast
  have "fst (generate_ppt (open_book (book_of_sheet sheet_words)) save_denied None None world0)
     = Inr 0"
    using generate_ppt_fst [of "open_book (book_of_sheet sheet_words)" None
      "book_of_sheet sheet_words" ppt save_denied None world0]
      sheet_words_required d
    by (simp add: open_book_facts save_denied_def)
  then show ?thesis unfolding sheet_words_rows by simp
qed

text \<open>
  C10. For a worksheet with the six required columns and no data row, \<open>generate_ppt\<close>
  does not fail: it returns 0 whatever the save does, having handed a deck without slides
  to \<open>ppt.save\<close>, and when the save succeeds it prints the start, success and count lines.
  The value 0 is also what it returns, for a worksheet with any number of rows, when the
  save fails.
\<close>

theorem empty_sheet_returns_zero:
  assumes "CStr ` set REQUIRED_COLUMNS \<subseteq> set (ws_row ws 1)"
    and "max_row ws \<le> 1"
    and "load_workbook (case input_file of None \<Rightarrow> DEFAULT_INPUT | Some f \<Rightarrow> f) = Inr wb"
    and "active wb = ws"
  shows "sheet_records ws = []
    \<and> fst (generate_ppt load_workbook save input_file output_file w) = Inr 0
    \<and> save_calls (snd (generate_ppt load_workbook save input_file output_file w))
        = save_calls w @ [((case output_file of None \<Rightarrow> DEFAULT_OUTPUT | Some f \<Rightarrow> f), create_presentation)]
    \<and> slides create_presentation = []
    \<and> (save (case output_file of None \<Rightarrow> DEFAULT_OUTPUT | Some f \<Rightarrow> f) create_presentation = None \<longrightarrow>
          generate_ppt load_workbook save input_file output_file w
            = (Inr 0,
               \<lparr>stdout = stdout w @ [MSG_START 0, MSG_SUCCESS (case output_file of None \<Rightarrow> DEFAULT_OUTPUT | Some f \<Rightarrow> f), MSG_COUNT 0],
                save_calls = save_calls w @ [((case output_file of None \<Rightarrow> DEFAULT_OUTPUT | Some f \<Rightarrow> f), create_presentation)]\<rparr>))
    \<and> (load_workbook' (case input_file' of None \<Rightarrow> DEFAULT_INPUT | Some f \<Rightarrow> f) = Inr wb'
         \<and> CStr ` set REQUIRED_COLUMNS \<subseteq> set (ws_row (active wb') 1)
         \<and> sheet_deck (active wb') = Inr ppt'
         \<and> save' (case output_file' of None \<Rightarrow> DEFAULT_OUTPUT | Some f \<Rightarrow> f) ppt' = Some e \<longrightarrow>
          fst (generate_ppt load_workbook' save' input_file' output_file' w') = Inr 0)"
proof -
  have r: "sheet_records ws = []"
    using length_sheet_records [of ws] assms(2) by simp
  have l: "load_data load_workbook (case input_file of None \<Rightarrow> DEFAULT_INPUT | Some f \<Rightarrow> f) w = (Inr [], w)"
    using load_data_ok [of load_workbook "(case input_file of None \<Rightarrow> DEFAULT_INPUT | Some f \<Rightarrow> f)" wb w] assms(1,3,4) r by simp
  have g: "generate_ppt load_workbook save input_file output_file w
      = (case save (case output_file of None \<Rightarrow> DEFAULT_OUTPUT | Some f \<Rightarrow> f) create_presentation of
           None \<Rightarrow> (Inr 0,
               \<lparr>stdout = stdout w @ [MSG_START 0, MSG_SUCCESS (case output_file of None \<Rightarrow> DEFAULT_OUTPUT | Some f \<Rightarrow> f), MSG_COUNT 0],
                save_calls = save_calls w @ [((case output_file of None \<Rightarrow> DEFAULT_OUTPUT | Some f \<Rightarrow> f), create_presentation)]\<rparr>)
         | Some e \<Rightarrow> (Inr 0,
               \<lparr>stdout = stdout w @ [MSG_START 0, MSG_SAVE_ERROR @ e],
                save_calls = save_calls w @ [((case output_file of None \<Rightarrow> DEFAULT_OUTPUT | Some f \<Rightarrow> f), create_presentation)]\<rparr>))"
    unfolding generate_ppt_def Let_def l prod.case sum.case
    by (simp add: print_def split: option.split)
  have f: "fst (generate_ppt load_workbook save input_file output_file w) = Inr 0"
    unfolding g by (simp split: option.split)
  have c: "save_calls (snd (generate_ppt load_workbook save input_file output_file w))
        = save_calls w @ [((case output_file of None \<Rightarrow> DEFAULT_OUTPUT | Some f \<Rightarrow> f), create_presentation)]"
    unfolding g by (simp split: option.split)
  have e: "slides create_presentation = []"
    by (simp add: create_presentation_def)
  have o: "generate_ppt load_workbook save input_file output_file w
            = (Inr 0,
               \<lparr>stdout = stdout w @ [MSG_START 0, MSG_SUCCESS (case output_file of None \<Rightarrow> DEFAULT_OUTPUT | Some f \<Rightarrow> f), MSG_COUNT 0],
                save_calls = save_calls w @ [((case output_file of None \<Rightarrow> DEFAULT_OUTPUT | Some f \<Rightarrow> f), create_presentation)]\<rparr>)"
    if "save (case output_file of None \<Rightarrow> DEFAULT_OUTPUT | Some f \<Rightarrow> f) create_presentation = None"
    unfolding g using that by simp
  have x: "fst (generate_ppt load_workbook' save' input_file' output_file' w') = Inr 0"
    if "load_workbook' (case input_file' of None \<Rightarrow> DEFAULT_INPUT | Some f \<Rightarrow> f) = Inr wb'
         \<and> CStr ` set REQUIRED_COLUMNS \<subseteq> set (ws_row (active wb') 1)
         \<and> sheet_deck (active wb') = Inr ppt'
         \<and> save' (case output_file' of None \<Rightarrow> DEFAULT_OUTPUT | Some f \<Rightarrow> f) ppt' = Some e"
  proof -
    from that have p: "load_workbook' (case input_file' of None \<Rightarrow> DEFAULT_INPUT | Some f \<Rightarrow> f) = Inr wb'"
      "CStr ` set REQUIRED_COLUMNS \<subseteq> set (ws_row (active wb') 1)"
      "sheet_deck (active wb') = Inr ppt'"
      and q: "save' (case output_file' of None \<Rightarrow> DEFAULT_OUTPUT | Some f \<Rightarrow> f) ppt' = Some e"
      by simp_all
    from generate_ppt_fst [of load_workbook' input_file' wb' ppt' save' output_file' w', OF p] q
    show ?thesis by simp
  qed
  show ?thesis
    apply (intro conjI)
    subgoal by (rule r)
    subgoal by (rule f)
    subgoal by (rule c)
    subgoal by (rule e)
    subgoal by (rule impI) (rule o)
    subgoal by (rule impI) (rule x)
    done
qed

theorem empty_sheet_returns_zero_witness:
  "generate_ppt (open_book (book_of_sheet sheet_empty)) save_ok None None world0
     = (Inr 0,
        \<lparr>stdout = [MSG_START 0, MSG_SUCCESS DEFAULT_OUTPUT, MSG_COUNT 0],
         save_calls = [(DEFAULT_OUTPUT, create_presentation)]\<rparr>)
   \<and> fst (generate_ppt (open_book (book_of_sheet sheet_words)) save_denied None None world0)
       = Inr 0"
proof -
  from sheet_deck_ok [OF sheet_words_required] obtain ppt where
    d: "sheet_deck sheet_words = Inr ppt" by blast
  have m: "max_row sheet_empty \<le> 1"
    unfolding sheet_empty_rows by simp
  have o: "open_book (book_of_sheet sheet_empty)
             (case None of None \<Rightarrow> DEFAULT_INPUT | Some f \<Rightarrow> f) = Inr (book_of_sheet sheet_empty)"
    by (simp add: open_book_facts)
  have a: "active (book_of_sheet sheet_empty) = sheet_empty"
    by (simp add: open_book_facts)
  have h: "open_book (book_of_sheet sheet_words)
             (case None of None \<Rightarrow> DEFAULT_INPUT | Some f \<Rightarrow> f) = Inr (book_of_sheet sheet_words)
         \<and> CStr ` set REQUIRED_COLUMNS \<subseteq> set (ws_row (active (book_of_sheet sheet_words)) 1)
         \<and> sheet_deck (active (book_of_sheet sheet_words)) = Inr ppt
         \<and> save_denied (case None of None \<Rightarrow> DEFAULT_OUTPUT | Some f \<Rightarrow> f) ppt
             = Some [0x64, 0x65, 0x6E, 0x69, 0x65, 0x64]"
    using sheet_words_required d by (simp add: open_book_facts save_denied_def)
  note t = empty_sheet_returns_zero [where ws = sheet_empty
      and load_workbook = "open_book (book_of_sheet sheet_empty)" and input_file = None
      and wb = "book_of_sheet sheet_empty" and save = save_ok and output_file = None
      and w = world0 and load_workbook' = "open_book (book_of_sheet sheet_words)"
      and input_file' = None and wb' = "book_of_sheet sheet_words" and ppt' = ppt
      and save' = save_denied and output_file' = None
      and e = "[0x64, 0x65, 0x6E, 0x69, 0x65, 0x64]" and w' = world0,
      OF sheet_empty_required m o a]
  have s: "save_ok (case None of None \<Rightarrow> DEFAULT_OUTPUT | Some f \<Rightarrow> f) create_presentation = None"
    by (simp add: save_ok_def)
  from t [THEN conjunct2, THEN conjunct2, THEN conjunct2, THEN conjunct2, THEN conjunct1,
      rule_format, OF s]
  have g1: "generate_ppt (open_book (book_of_sheet sheet_empty)) save_ok None None world0
     = (Inr 0,
        \<lparr>stdout = [MSG_START 0, MSG_SUCCESS DEFAULT_OUTPUT, MSG_COUNT 0],
         save_calls = [(DEFAULT_OUTPUT, create_presentation)]\<rparr>)"
    by (simp add: world0_def)
  from t [THEN conjunct2, THEN conjunct2, THEN conjunct2, THEN conjunct2, THEN conjunct2,
      rule_format, OF h]
  have g2: "fst (generate_ppt (open_book (book_of_sheet sheet_words)) save_denied None None
                   world0) = Inr 0" .
  from g1 g2 show ?thesis by (rule conjI)
qed

end
